(* ===== verification/Prelude.thy ===== *)
theory Prelude
  imports Main "HOL-Library.Word" "HOL-Library.Char_ord" "HOL-Library.List_Lexorder"
    "HOL-Library.Product_Lexorder"
begin

text \<open>
  The vocabulary the component theories share: Go's integer types, unrendered error values,
  the result type of a fallible call, the six-field counter block that both the eBPF map and the
  SQLite tables carry, and the generic lemmas on lists, maps and words the component proofs use.
\<close>

named_theorems golib \<open>definitions of the Go and SQL primitives, for evaluation\<close>
named_theorems counters_simps \<open>componentwise arithmetic on counter blocks\<close>

section \<open>Integers and errors\<close>

type_synonym byte = "8 word"
type_synonym uint32 = "32 word"
type_synonym uint64 = "64 word"
type_synonym int64 = "64 word"

text \<open>
  A Go error is the format string given to \<open>fmt.Errorf\<close> with its arguments, not rendered: the
  code compares no error by its text, it only wraps and reports them. \<open>ExtErr\<close> is an error value
  that comes from outside the repository (the kernel, the driver, the operating system).
\<close>

datatype err =
    Errorf string "fmt_arg list"
  | ExtErr string
and fmt_arg =
    AStr string
  | AInt int
  | ABytes "byte list"
  | AErr err

type_synonym 'a result = "err + 'a"

abbreviation Ok :: "'a \<Rightarrow> 'a result" where "Ok \<equiv> Inr"
abbreviation Fail :: "err \<Rightarrow> 'a result" where "Fail \<equiv> Inl"

definition wrap_err :: "string \<Rightarrow> err \<Rightarrow> err" where
  "wrap_err msg e = Errorf msg [AErr e]"

text \<open>Sequencing of fallible calls: the first error is returned.\<close>

definition bind_result :: "'a result \<Rightarrow> ('a \<Rightarrow> 'b result) \<Rightarrow> 'b result" where
  "bind_result r f = (case r of Inl e \<Rightarrow> Inl e | Inr a \<Rightarrow> f a)"

lemma bind_result_simps [simp]:
  "bind_result (Inl e) f = Inl e"
  "bind_result (Inr a) f = f a"
  by (simp_all add: bind_result_def)

lemma bind_result_Inr_iff:
  "bind_result r f = Inr b \<longleftrightarrow> (\<exists>a. r = Inr a \<and> f a = Inr b)"
  by (cases r) auto

section \<open>The counter block\<close>

text \<open>
  The six counters of \<open>storage.TrafficCounters\<close> and \<open>ebpf.TrafficCounter\<close>, in the order of
  the Go structs. The block is generic in what a counter is: a \<open>uint64\<close> in the Go structs and in
  the kernel map, an SQL value in a table row.
\<close>

datatype 'a counters = Counters
  (Bytes: 'a) (Packets: 'a) (IngressBytes: 'a) (IngressPackets: 'a)
  (EgressBytes: 'a) (EgressPackets: 'a)

fun map2_counters :: "('a \<Rightarrow> 'b \<Rightarrow> 'c) \<Rightarrow> 'a counters \<Rightarrow> 'b counters \<Rightarrow> 'c counters" where
  "map2_counters f (Counters a1 a2 a3 a4 a5 a6) (Counters b1 b2 b3 b4 b5 b6) =
     Counters (f a1 b1) (f a2 b2) (f a3 b3) (f a4 b4) (f a5 b5) (f a6 b6)"

instantiation counters :: (zero) zero
begin
definition zero_counters :: "'a counters" where
  "zero_counters = Counters 0 0 0 0 0 0"
instance ..
end

instantiation counters :: (plus) plus
begin
definition plus_counters :: "'a counters \<Rightarrow> 'a counters \<Rightarrow> 'a counters" where
  "plus_counters = map2_counters (+)"
instance ..
end

instantiation counters :: (minus) minus
begin
definition minus_counters :: "'a counters \<Rightarrow> 'a counters \<Rightarrow> 'a counters" where
  "minus_counters = map2_counters (-)"
instance ..
end

instantiation counters :: (ord) ord
begin
fun less_eq_counters :: "'a counters \<Rightarrow> 'a counters \<Rightarrow> bool" where
  "less_eq_counters (Counters a1 a2 a3 a4 a5 a6) (Counters b1 b2 b3 b4 b5 b6) \<longleftrightarrow>
     a1 \<le> b1 \<and> a2 \<le> b2 \<and> a3 \<le> b3 \<and> a4 \<le> b4 \<and> a5 \<le> b5 \<and> a6 \<le> b6"
definition less_counters :: "'a counters \<Rightarrow> 'a counters \<Rightarrow> bool" where
  "less_counters a b \<longleftrightarrow> a \<le> b \<and> \<not> b \<le> a"
instance ..
end

lemma counters_zero [counters_simps]: "(0 :: 'a::zero counters) = Counters 0 0 0 0 0 0"
  by (simp add: zero_counters_def)

lemma counters_eq_0_iff [simp]:
  "Counters a b c d e f = 0 \<longleftrightarrow> a = 0 \<and> b = 0 \<and> c = 0 \<and> d = 0 \<and> e = 0 \<and> f = (0 :: 'a::zero)"
  "0 = Counters a b c d e f \<longleftrightarrow> a = 0 \<and> b = 0 \<and> c = 0 \<and> d = 0 \<and> e = 0 \<and> f = (0 :: 'a::zero)"
  by (auto simp: counters_zero)

lemma counters_arith [counters_simps, simp]:
  "Counters a1 a2 a3 a4 a5 a6 + Counters b1 b2 b3 b4 b5 b6 =
     Counters (a1 + b1 :: 'b::plus) (a2 + b2) (a3 + b3) (a4 + b4) (a5 + b5) (a6 + b6)"
  "Counters c1 c2 c3 c4 c5 c6 - Counters d1 d2 d3 d4 d5 d6 =
     Counters (c1 - d1 :: 'c::minus) (c2 - d2) (c3 - d3) (c4 - d4) (c5 - d5) (c6 - d6)"
  by (simp_all add: plus_counters_def minus_counters_def)

instance counters :: (comm_monoid_add) comm_monoid_add
proof
  fix a b c :: "'a counters"
  show "a + b + c = a + (b + c)" by (cases a; cases b; cases c) (simp add: add.assoc)
  show "a + b = b + a" by (cases a; cases b) (simp add: add.commute)
  show "0 + a = a" by (cases a) (simp add: counters_zero)
qed

instantiation counters :: (uminus) uminus
begin
definition uminus_counters :: "'a counters \<Rightarrow> 'a counters" where
  "uminus_counters = map_counters uminus"
instance ..
end

instance counters :: (ab_group_add) ab_group_add
proof
  fix a b :: "'a counters"
  show "- a + a = 0" by (cases a) (simp add: uminus_counters_def)
  show "a - b = a + - b" by (cases a; cases b) (simp add: uminus_counters_def)
qed

instance counters :: (order) order
proof
  fix a b c :: "'a counters"
  show "a < b \<longleftrightarrow> a \<le> b \<and> \<not> b \<le> a" by (simp add: less_counters_def)
  show "a \<le> a" by (cases a) simp
  show "a \<le> b \<Longrightarrow> b \<le> c \<Longrightarrow> a \<le> c" by (cases a; cases b; cases c) auto
  show "a \<le> b \<Longrightarrow> b \<le> a \<Longrightarrow> a = b" by (cases a; cases b) auto
qed

text \<open>
  \<open>uint64\<close> blocks form a group (subtraction wraps and cancels addition), \<open>int\<close> blocks an ordered one.
\<close>

instance counters :: (ordered_ab_group_add) ordered_ab_group_add
proof
  fix a b c :: "'a counters"
  show "a \<le> b \<Longrightarrow> c + a \<le> c + b" by (cases a; cases b; cases c) simp
qed

text \<open>The six values in the order in which the statements bind them.\<close>

fun counters_list :: "'a counters \<Rightarrow> 'a list" where
  "counters_list (Counters a b c d e f) = [a, b, c, d, e, f]"

lemma set_counters_list: "set (counters_list c) = set_counters c"
  by (cases c) auto

lemma counters_list_map: "counters_list (map_counters f c) = map f (counters_list c)"
  by (cases c) simp

definition counters_uint :: "uint64 counters \<Rightarrow> int counters" where
  "counters_uint = map_counters uint"

lemma counters_uint_simps [simp]:
  "counters_uint (Counters a b c d e f) =
     Counters (uint a) (uint b) (uint c) (uint d) (uint e) (uint f)"
  by (simp add: counters_uint_def)

lemma counters_uint_0 [simp]: "counters_uint 0 = 0"
  by (simp add: counters_zero)

lemma counters_uint_inject: "counters_uint c = counters_uint d \<longleftrightarrow> c = d"
  by (cases c; cases d) (simp add: word_uint_eq_iff)

section \<open>Words\<close>

lemma uint_diff_no_borrow: "(b :: 'a::len word) \<le> a \<Longrightarrow> uint (a - b) = uint a - uint b"
  by (simp add: uint_minus_simple_alt)

lemma uint_diff_borrow:
  "(a :: 'a::len word) < b \<Longrightarrow> uint (a - b) = 2 ^ LENGTH('a) + uint a - uint b"
  by (simp add: uint_sub_if' word_less_def)

lemma counters_uint_diff:
  "d \<le> c \<Longrightarrow> counters_uint (c - d) = counters_uint c - counters_uint d"
  by (cases c; cases d) (simp add: uint_diff_no_borrow)

section \<open>Keyed tables\<close>

text \<open>
  An SQL table with a primary key, as the list of its rows, each under its key. An upsert replaces
  the row with the same key or appends a new one; a delete keeps the rows outside its condition.
\<close>

type_synonym ('k, 'v) table = "('k \<times> 'v) list"

fun upsert_row :: "'k \<Rightarrow> 'v \<Rightarrow> ('v \<Rightarrow> 'v) \<Rightarrow> ('k, 'v) table \<Rightarrow> ('k, 'v) table" where
  "upsert_row k new upd [] = [(k, new)]"
| "upsert_row k new upd ((k', v) # t) =
     (if k' = k then (k', upd v) # t else (k', v) # upsert_row k new upd t)"

definition unique_keys :: "('k, 'v) table \<Rightarrow> bool" where
  "unique_keys t \<longleftrightarrow> distinct (map fst t)"

lemma map_of_upsert_row:
  "map_of (upsert_row k new upd t) =
     (map_of t)(k \<mapsto> (case map_of t k of None \<Rightarrow> new | Some v \<Rightarrow> upd v))"
  by (induction t) (auto simp: fun_eq_iff)

lemma fst_set_upsert_row: "fst ` set (upsert_row k new upd t) = insert k (fst ` set t)"
  by (induction k new upd t rule: upsert_row.induct) (simp_all add: insert_commute)

lemma unique_keys_upsert_row: "unique_keys t \<Longrightarrow> unique_keys (upsert_row k new upd t)"
  by (induction t) (auto simp: unique_keys_def fst_set_upsert_row image_iff)

lemma unique_keys_Nil [simp]: "unique_keys []"
  by (simp add: unique_keys_def)

lemma unique_keys_filter: "unique_keys t \<Longrightarrow> unique_keys (filter P t)"
  by (auto simp: unique_keys_def distinct_map_filter)

lemma map_of_filter_key:
  "map_of (filter (\<lambda>(k, v). P k) t) k = (if P k then map_of t k else None)"
  by (induction t) auto

lemma unique_keys_map_of: "unique_keys t \<Longrightarrow> map_of t k = Some v \<longleftrightarrow> (k, v) \<in> set t"
  by (simp add: unique_keys_def)

end
