(* ===== verification/Config.thy ===== *)
theory Config
  imports Prelude
begin

text \<open>
  Configuration values and their validation, \<open>internal/config/config.go\<close>, with the functions of
  Go's \<open>strings\<close>, \<open>net\<close> and \<open>strconv\<close> packages that \<open>Validate\<close> calls. Strings are byte
  strings, a character being a byte. The theory shows which configurations are accepted, and that
  the server of an accepted one listens on a loopback address only.
\<close>

section \<open>Library functions\<close>

subsection \<open>\<open>strings.TrimSpace\<close>\<close>

text \<open>
  The number of bytes of a leading white-space rune: the ASCII spaces, and the UTF-8 encodings of
  U+0085, U+00A0, U+1680, U+2000 to U+200A, U+2028, U+2029, U+202F, U+205F and U+3000.
\<close>

definition space_rune :: "nat list \<Rightarrow> nat" where
  "space_rune bs =
     (case bs of
        [] \<Rightarrow> 0
      | a # r \<Rightarrow>
          if 9 \<le> a \<and> a \<le> 13 \<or> a = 32 then 1
          else (case r of
             [] \<Rightarrow> 0
           | b # r' \<Rightarrow>
               if a = 0xC2 \<and> (b = 0x85 \<or> b = 0xA0) then 2
               else (case r' of
                  [] \<Rightarrow> 0
                | c # _ \<Rightarrow>
                    if a = 0xE1 \<and> b = 0x9A \<and> c = 0x80
                       \<or> a = 0xE2 \<and> b = 0x80 \<and> (0x80 \<le> c \<and> c \<le> 0x8A \<or> c = 0xA8 \<or> c = 0xA9 \<or> c = 0xAF)
                       \<or> a = 0xE2 \<and> b = 0x81 \<and> c = 0x9F
                       \<or> a = 0xE3 \<and> b = 0x80 \<and> c = 0x80
                    then 3 else 0)))"

text \<open>
  Cutting leading white space. \<open>TrimSpace\<close> cuts trailing white space after that, which cannot
  empty a string that starts with another rune, so \<open>TrimSpace s == ""\<close> is \<open>trim_left s = []\<close>.
\<close>

function trim_left :: "string \<Rightarrow> string" where
  "trim_left s =
     (let n = space_rune (map of_char s)
      in if n = 0 \<or> s = [] then s else trim_left (drop n s))"
  by pat_completeness auto
termination
  by (relation "measure length") auto

declare trim_left.simps [simp del]

subsection \<open>\<open>net.SplitHostPort\<close>\<close>

fun index_byte :: "char \<Rightarrow> string \<Rightarrow> nat option" where
  "index_byte c [] = None"
| "index_byte c (x # xs) = (if x = c then Some 0 else map_option Suc (index_byte c xs))"

definition last_index_byte :: "char \<Rightarrow> string \<Rightarrow> nat option" where
  "last_index_byte c s = map_option (\<lambda>n. length s - 1 - n) (index_byte c (rev s))"

definition addrErr :: "string \<Rightarrow> string \<Rightarrow> 'a result" where
  "addrErr addr why = Fail (Errorf why [AStr addr])"

definition split_tail :: "string \<Rightarrow> string \<Rightarrow> nat \<Rightarrow> nat \<Rightarrow> nat \<Rightarrow> (string \<times> string) result" where
  "split_tail hostport host i j k =
     (if CHR ''['' \<in> set (drop j hostport) then addrErr hostport ''unexpected '[' in address''
      else if CHR '']'' \<in> set (drop k hostport) then addrErr hostport ''unexpected ']' in address''
      else Ok (host, drop (Suc i) hostport))"

definition SplitHostPort :: "string \<Rightarrow> (string \<times> string) result" where
  "SplitHostPort hostport =
     (case last_index_byte CHR '':'' hostport of
        None \<Rightarrow> addrErr hostport ''missing port in address''
      | Some i \<Rightarrow>
          if hd hostport = CHR ''['' then
            (case index_byte CHR '']'' hostport of
               None \<Rightarrow> addrErr hostport ''missing ']' in address''
             | Some close \<Rightarrow>
                 if close + 1 = length hostport then addrErr hostport ''missing port in address''
                 else if close + 1 = i
                 then split_tail hostport (drop 1 (take close hostport)) i 1 (close + 1)
                 else if hostport ! (close + 1) = CHR '':''
                 then addrErr hostport ''too many colons in address''
                 else addrErr hostport ''missing port in address'')
          else
            (let host = take i hostport
             in if CHR '':'' \<in> set host then addrErr hostport ''too many colons in address''
                else split_tail hostport host i 0 0))"

subsection \<open>\<open>strconv.Atoi\<close>\<close>

definition digit_value :: "char \<Rightarrow> int option" where
  "digit_value c = (let n = int (of_char c) in if 48 \<le> n \<and> n \<le> 57 then Some (n - 48) else None)"

fun digits_value :: "int \<Rightarrow> string \<Rightarrow> int option" where
  "digits_value acc [] = Some acc"
| "digits_value acc (c # cs) =
     (case digit_value c of None \<Rightarrow> None | Some d \<Rightarrow> digits_value (10 * acc + d) cs)"

definition Atoi :: "string \<Rightarrow> int result" where
  "Atoi s =
     (let (neg, ds) = (case s of
          [] \<Rightarrow> (False, [])
        | c # cs \<Rightarrow> if c = CHR ''-'' then (True, cs) else if c = CHR ''+'' then (False, cs) else (False, s))
      in case (if ds = [] then None else digits_value 0 ds) of
           None \<Rightarrow> Fail (Errorf ''strconv.Atoi: parsing %q: invalid syntax'' [AStr s])
         | Some n \<Rightarrow>
             let v = (if neg then - n else n)
             in if - (2 ^ 63) \<le> v \<and> v < 2 ^ 63 then Ok v
                else Fail (Errorf ''strconv.Atoi: parsing %q: value out of range'' [AStr s]))"

section \<open>The configuration\<close>

definition ValidLogLevels :: "string list" where
  "ValidLogLevels = [''debug'', ''info'', ''warn'', ''error'']"

record Config =
  Interfaces :: "string list"
  BindAddress :: string
  DatabasePath :: string
  FlushInterval :: int
  HousekeepingInterval :: int
  LogLevel :: string
  AllowPartial :: bool

definition New_config :: Config where
  "New_config =
     \<lparr>Interfaces = [], BindAddress = ''127.0.0.1:8080'', DatabasePath = ''./traffic-count.db'',
      FlushInterval = 10, HousekeepingInterval = 3600, LogLevel = ''info'', AllowPartial = False\<rparr>"

definition loopback_host :: "string \<Rightarrow> bool" where
  "loopback_host host \<longleftrightarrow> \<not> (host \<noteq> ''127.0.0.1'' \<and> host \<noteq> ''localhost'' \<and> host \<noteq> ''::1'')"

definition Validate :: "Config \<Rightarrow> unit result" where
  "Validate c =
     (if Interfaces c = []
      then Fail (Errorf ''config validation failed: no interfaces configured'' [])
      else if \<exists>iface \<in> set (Interfaces c). trim_left iface = []
      then Fail (Errorf ''config validation failed: empty interface name in allowlist'' [])
      else if BindAddress c = []
      then Fail (Errorf ''config validation failed: bind address is required'' [])
      else case SplitHostPort (BindAddress c) of
        Inl e \<Rightarrow> Fail (Errorf ''config validation failed: invalid bind address %q: %w'' [AStr (BindAddress c), AErr e])
      | Inr (host, portStr) \<Rightarrow>
          if \<not> loopback_host host
          then Fail (Errorf ''config validation failed: bind address must be loopback (127.0.0.1 or localhost or ::1), got %q'' [AStr host])
          else case Atoi portStr of
            Inl e \<Rightarrow> Fail (Errorf ''config validation failed: invalid port in bind address %q: %w'' [AStr (BindAddress c), AErr e])
          | Inr port \<Rightarrow>
              if port < 1 \<or> port > 65535
              then Fail (Errorf ''config validation failed: port must be between 1 and 65535, got %d'' [AInt port])
              else if DatabasePath c = []
              then Fail (Errorf ''config validation failed: database path is required'' [])
              else if FlushInterval c \<le> 0
              then Fail (Errorf ''config validation failed: flush interval must be positive, got %d'' [AInt (FlushInterval c)])
              else if LogLevel c \<notin> set ValidLogLevels
              then Fail (Errorf ''config validation failed: invalid log level %q, must be one of: debug, info, warn, error'' [AStr (LogLevel c)])
              else Ok ())"

section \<open>Splitting an address\<close>

lemma index_byte_Some:
  "index_byte c s = Some i \<longleftrightarrow> (\<exists>h p. s = h @ c # p \<and> c \<notin> set h \<and> i = length h)"
proof (induction s arbitrary: i)
  case (Cons x xs)
  show ?case
  proof (cases "x = c")
    case True
    then have "x # xs = h @ c # p \<and> c \<notin> set h \<longleftrightarrow> h = [] \<and> p = xs" for h p by (cases h) auto
    with True show ?thesis by auto
  next
    case False
    then have "x # xs = h @ c # p \<and> c \<notin> set h \<and> i = length h \<longleftrightarrow>
        (\<exists>h'. h = x # h' \<and> xs = h' @ c # p \<and> c \<notin> set h' \<and> i = Suc (length h'))" for h p
      by (cases h) auto
    with False Cons.IH show ?thesis by auto
  qed
qed simp

lemma index_byte_None: "index_byte c s = None \<longleftrightarrow> c \<notin> set s"
  by (induction s) auto

lemma last_index_byte_Some:
  "last_index_byte c s = Some i \<longleftrightarrow> (\<exists>h p. s = h @ c # p \<and> c \<notin> set p \<and> i = length h)"
proof
  assume "last_index_byte c s = Some i"
  then obtain h p where r: "rev s = h @ c # p" "c \<notin> set h" and i: "i = length s - 1 - length h"
    by (auto simp: last_index_byte_def index_byte_Some)
  from arg_cong [OF r(1), of rev] have s: "s = rev p @ c # rev h" by simp
  with i have "i = length (rev p)" by simp
  with s r(2) show "\<exists>h p. s = h @ c # p \<and> c \<notin> set p \<and> i = length h" by (metis set_rev)
next
  assume "\<exists>h p. s = h @ c # p \<and> c \<notin> set p \<and> i = length h"
  then obtain h p where "s = h @ c # p" "c \<notin> set p" "i = length h" by blast
  moreover from this have "index_byte c (rev s) = Some (length p)"
    by (auto simp: index_byte_Some intro: exI [of _ "rev p"])
  ultimately show "last_index_byte c s = Some i" by (simp add: last_index_byte_def)
qed

lemma split_at_last: "c \<notin> set p \<Longrightarrow> last_index_byte c (h @ c # p) = Some (length h)"
  by (auto simp: last_index_byte_Some)

lemma split_at_first: "c \<notin> set h \<Longrightarrow> index_byte c (h @ c # p) = Some (length h)"
  by (auto simp: index_byte_Some)

text \<open>The characters that may not stand in a host or a port.\<close>

definition plain_part :: "string \<Rightarrow> bool" where
  "plain_part s \<longleftrightarrow> CHR ''['' \<notin> set s \<and> CHR '']'' \<notin> set s"

lemma SplitHostPort_plain:
  assumes "CHR '':'' \<notin> set host" and "CHR '':'' \<notin> set port" and "plain_part host" and "plain_part port"
  shows "SplitHostPort (host @ CHR '':'' # port) = Ok (host, port)"
proof -
  have "hd (host @ CHR '':'' # port) \<noteq> CHR ''[''"
    using assms(3) by (cases host) (auto simp: plain_part_def)
  with assms show ?thesis
    by (simp add: SplitHostPort_def split_at_last split_tail_def plain_part_def)
qed

lemma SplitHostPort_bracket:
  assumes "CHR '':'' \<notin> set port" and "plain_part host" and "plain_part port"
  shows "SplitHostPort (CHR ''['' # host @ CHR '']'' # CHR '':'' # port) = Ok (host, port)"
proof -
  let ?a = "CHR ''['' # host @ CHR '']'' # CHR '':'' # port"
  have "last_index_byte CHR '':'' ?a = Some (Suc (Suc (length host)))"
    using split_at_last [OF assms(1), of "CHR ''['' # host @ [CHR '']'']"] by simp
  moreover have "index_byte CHR '']'' ?a = Some (Suc (length host))"
    using assms(2) split_at_first [of "CHR '']''" "CHR ''['' # host" "CHR '':'' # port"]
    by (simp add: plain_part_def)
  ultimately show ?thesis
    using assms by (simp add: SplitHostPort_def split_tail_def plain_part_def)
qed

lemma SplitHostPort_Ok:
  assumes "SplitHostPort a = Ok (host, port)"
  shows "a = host @ CHR '':'' # port \<or> a = CHR ''['' # host @ CHR '']'' # CHR '':'' # port"
proof -
  from assms obtain i where i: "last_index_byte CHR '':'' a = Some i"
    by (auto simp: SplitHostPort_def addrErr_def split: option.splits)
  then obtain h p where a: "a = h @ CHR '':'' # p" and ip: "i = length h"
    by (auto simp: last_index_byte_Some)
  show ?thesis
  proof (cases "hd a = CHR ''[''")
    case True
    with assms i ip obtain close where c: "index_byte CHR '']'' a = Some close" "close + 1 = length h"
      and res: "split_tail a (drop 1 (take close a)) i 1 (close + 1) = Ok (host, port)"
      by (auto simp: SplitHostPort_def addrErr_def split: option.splits if_splits)
    from c(1) obtain x y where xy: "a = x @ CHR '']'' # y" "close = length x"
      by (auto simp: index_byte_Some)
    from c(2) xy(2) a have "h = take (Suc (length x)) a" by simp
    with xy(1) have h: "h = x @ [CHR '']'']" by simp
    with True a xy have x: "x = CHR ''['' # tl x" by (cases x) auto
    from res h a xy have "host = tl x" "port = p"
      by (auto simp: split_tail_def addrErr_def ip drop_Suc split: if_splits)
    moreover from x h have "h = CHR ''['' # tl x @ [CHR '']'']" by simp
    ultimately show ?thesis using a by simp
  next
    case False
    with assms i ip a show ?thesis
      by (auto simp: SplitHostPort_def split_tail_def addrErr_def Let_def split: if_splits)
  qed
qed

section \<open>What \<open>Validate\<close> accepts\<close>

lemma digits_value_plain:
  "digits_value acc s = Some n \<Longrightarrow> x \<in> set s \<Longrightarrow> digit_value x \<noteq> None"
  by (induction s arbitrary: acc) (auto split: option.splits)

lemma no_digit: "digit_value CHR '':'' = None" "digit_value CHR ''['' = None" "digit_value CHR '']'' = None"
  by code_simp+

lemma Atoi_plain:
  assumes "Atoi s = Ok n"
  shows "plain_part s \<and> CHR '':'' \<notin> set s"
proof -
  from assms obtain ds m where "s = ds \<or> s = CHR ''-'' # ds \<or> s = CHR ''+'' # ds" "digits_value 0 ds = Some m"
    by (cases s) (auto simp: Atoi_def Let_def simp del: digits_value.simps split: if_splits option.splits)
  with no_digit digits_value_plain [of 0 ds m] show ?thesis
    by (fastforce simp: plain_part_def)
qed

text \<open>A loopback address with a port in range, in the forms the split accepts.\<close>

definition loopback_address :: "string \<Rightarrow> bool" where
  "loopback_address a \<longleftrightarrow> (\<exists>host portStr port.
     host \<in> {''127.0.0.1'', ''localhost'', ''::1''} \<and> Atoi portStr = Ok port \<and> 1 \<le> port \<and> port \<le> 65535 \<and>
     (a = CHR ''['' # host @ '']:'' @ portStr \<or> host \<noteq> ''::1'' \<and> a = host @ CHR '':'' # portStr))"

lemma loopback_split:
  "loopback_address a \<longleftrightarrow> (\<exists>host portStr port. SplitHostPort a = Ok (host, portStr) \<and>
     loopback_host host \<and> Atoi portStr = Ok port \<and> 1 \<le> port \<and> port \<le> 65535)"
  (is "_ \<longleftrightarrow> ?split a")
proof
  assume "loopback_address a"
  then obtain host ps port where h: "host \<in> {''127.0.0.1'', ''localhost'', ''::1''}"
    and p: "Atoi ps = Ok port" "1 \<le> port" "port \<le> 65535"
    and a: "a = CHR ''['' # host @ '']:'' @ ps \<or> host \<noteq> ''::1'' \<and> a = host @ CHR '':'' # ps"
    by (auto simp: loopback_address_def)
  from h have host: "plain_part host" "host \<noteq> ''::1'' \<longrightarrow> CHR '':'' \<notin> set host"
    by (auto simp: plain_part_def)
  with a Atoi_plain [OF p(1)] SplitHostPort_plain [of host ps] SplitHostPort_bracket [of ps host]
  have "SplitHostPort a = Ok (host, ps)" by auto
  with h p show "?split a" by (auto simp: loopback_host_def)
next
  assume "?split a"
  then obtain host ps port where s: "SplitHostPort a = Ok (host, ps)" and h: "loopback_host host"
    and p: "Atoi ps = Ok port" "1 \<le> port" "port \<le> 65535" by blast
  have "host \<noteq> ''::1''" if "a = host @ CHR '':'' # ps"
  proof
    assume "host = ''::1''"
    with that have "a = ''::1:'' @ ps" by simp
    moreover have "last_index_byte CHR '':'' (''::1'' @ CHR '':'' # ps) = Some 3"
      using Atoi_plain [OF p(1)] by (subst split_at_last) simp_all
    ultimately show False using s by (simp add: SplitHostPort_def addrErr_def)
  qed
  with SplitHostPort_Ok [OF s] h p show "loopback_address a"
    unfolding loopback_address_def loopback_host_def by (intro exI [of _ host] exI [of _ ps] exI [of _ port]) auto
qed

lemma Validate_Ok_iff:
  "Validate c = Ok () \<longleftrightarrow>
     Interfaces c \<noteq> [] \<and> (\<nexists>i. i \<in> set (Interfaces c) \<and> trim_left i = []) \<and>
     loopback_address (BindAddress c) \<and> DatabasePath c \<noteq> [] \<and> 0 < FlushInterval c \<and>
     LogLevel c \<in> {''debug'', ''info'', ''warn'', ''error''}"
proof -
  have "\<not> loopback_address []" by (auto simp: loopback_address_def)
  then show ?thesis
    unfolding Validate_def loopback_split
    by (auto simp: ValidLogLevels_def split: sum.splits prod.splits)
qed

text \<open>C20. \<open>Validate\<close> accepts exactly the configurations with at least one interface, no blank interface
  name, a loopback bind address with a port from 1 to 65535, a database path, a positive flush
  interval and a known log level. In particular the HTTP server of an accepted configuration never
  listens on another address.\<close>

theorem Validate_accepts_iff:
  "Validate c = Ok () \<longleftrightarrow>
     Interfaces c \<noteq> [] \<and> (\<nexists>i. i \<in> set (Interfaces c) \<and> trim_left i = []) \<and>
     loopback_address (BindAddress c) \<and> DatabasePath c \<noteq> [] \<and> 0 < FlushInterval c \<and>
     LogLevel c \<in> {''debug'', ''info'', ''warn'', ''error''}"
  by (rule Validate_Ok_iff)

end
