(* ===== verification/Dates.thy ===== *)
theory Dates
  imports Prelude
begin

text \<open>
  The calendar functions of Go's \<open>time\<close> package that the program calls on UTC times, and the date
  helpers of \<open>internal/storage/storage.go\<close>. A time is the number of nanoseconds since
  \<open>0001-01-01T00:00:00Z\<close>, Go's zero time; the wall clock a function reads is its argument
  \<open>now\<close>. The theory shows that the dates the tables store order as text exactly as they do in
  time, which is what every WHERE clause on \<open>date_utc\<close> relies on.
\<close>

type_synonym time = int

definition day_ns :: int where
  "day_ns = 86400 * 1000000000"

definition IsZero :: "time \<Rightarrow> bool" where
  "IsZero t \<longleftrightarrow> t = 0"

definition Unix :: "time \<Rightarrow> int" where
  "Unix t = t div 1000000000 - 62135596800"

section \<open>The Gregorian calendar\<close>

definition isLeap :: "int \<Rightarrow> bool" where
  "isLeap year \<longleftrightarrow> year mod 4 = 0 \<and> (year mod 100 \<noteq> 0 \<or> year mod 400 = 0)"

definition daysBefore :: "int list" where
  "daysBefore = [0, 31, 59, 90, 120, 151, 181, 212, 243, 273, 304, 334, 365]"

text \<open>The year and the day of the year of a day number, cutting off 400-, 100-, 4-year cycles.\<close>

definition year_yday :: "int \<Rightarrow> int \<times> int" where
  "year_yday d =
     (let n400 = d div 146097; d = d - 146097 * n400;
          n100 = d div 36524; n100 = n100 - n100 div 4; d = d - 36524 * n100;
          n4 = d div 1461; d = d - 1461 * n4;
          n1 = d div 365; n1 = n1 - n1 div 4; d = d - 365 * n1
      in (400 * n400 + 100 * n100 + 4 * n4 + n1 + 1, d))"

definition month_day :: "bool \<Rightarrow> int \<Rightarrow> int \<times> int" where
  "month_day leap yday =
     (if leap \<and> yday = 31 + 29 - 1 then (2, 29)
      else let day = (if leap \<and> yday > 31 + 29 - 1 then yday - 1 else yday);
               month = day div 31;
               end = daysBefore ! nat (month + 1)
           in if day \<ge> end then (month + 2, day - end + 1)
              else (month + 1, day - daysBefore ! nat month + 1))"

definition civil :: "int \<Rightarrow> int \<times> int \<times> int" where
  "civil d = (let (y, yday) = year_yday d in (y, month_day (isLeap y) yday))"

text \<open>Days from the epoch to the first of January of a year, and to a date (\<open>time.Date\<close>).\<close>

definition daysSinceEpoch :: "int \<Rightarrow> int" where
  "daysSinceEpoch year =
     (let y = year - 1; n400 = y div 400; y = y - 400 * n400;
          n100 = y div 100; y = y - 100 * n100; n4 = y div 4; y = y - 4 * n4
      in 146097 * n400 + 36524 * n100 + 1461 * n4 + 365 * y)"

definition Date :: "int \<Rightarrow> int \<Rightarrow> int \<Rightarrow> time" where
  "Date year month day =
     (daysSinceEpoch year + daysBefore ! nat (month - 1)
        + (if isLeap year \<and> month \<ge> 3 then 1 else 0) + day - 1) * day_ns"

definition AddDate_days :: "int \<Rightarrow> time \<Rightarrow> time" where
  "AddDate_days days t =
     (case civil (t div day_ns) of (y, m, d) \<Rightarrow> Date y m (d + days) + t mod day_ns)"

section \<open>Formatting\<close>

definition digit_char :: "nat \<Rightarrow> char" where
  "digit_char n = char_of (48 + n)"

fun decimal :: "nat \<Rightarrow> string" where
  "decimal n = (if n < 10 then [digit_char n] else decimal (n div 10) @ [digit_char (n mod 10)])"

declare decimal.simps [simp del]

text \<open>\<open>appendInt\<close>: decimal, zero-padded to a width, with a sign for a negative number.\<close>

definition appendInt :: "int \<Rightarrow> nat \<Rightarrow> string" where
  "appendInt x width =
     (let ds = decimal (nat \<bar>x\<bar>)
      in (if x < 0 then ''-'' else []) @ replicate (width - length ds) (CHR ''0'') @ ds)"

text \<open>\<open>t.UTC().Format("2006-01-02")\<close> on a day number.\<close>

definition format_day :: "int \<Rightarrow> string" where
  "format_day d =
     (case civil d of (y, m, dd) \<Rightarrow> appendInt y 4 @ ''-'' @ appendInt m 2 @ ''-'' @ appendInt dd 2)"

definition FormatDateUTC :: "time \<Rightarrow> string" where
  "FormatDateUTC t = format_day (t div day_ns)"

definition CurrentDateUTC :: "time \<Rightarrow> string" where
  "CurrentDateUTC now = FormatDateUTC now"

definition PruneCutoffDate :: "time \<Rightarrow> string" where
  "PruneCutoffDate now = FormatDateUTC (AddDate_days (-400) now)"

section \<open>Days and years\<close>

text \<open>A year as \<open>a\<close> 400-year, \<open>b\<close> 100-year and \<open>c\<close> 4-year cycles and \<open>e\<close> years.\<close>

definition cycles :: "int \<Rightarrow> int \<Rightarrow> int \<Rightarrow> bool" where
  "cycles b c e \<longleftrightarrow> 0 \<le> b \<and> b \<le> 3 \<and> 0 \<le> c \<and> c \<le> 24 \<and> 0 \<le> e \<and> e \<le> 3"

lemma div_unique_int: "(n :: int) = m * q + r \<Longrightarrow> 0 \<le> r \<Longrightarrow> r < m \<Longrightarrow> n div m = q"
  by (rule int_div_pos_eq) simp_all

lemma div_mod_bounds:
  fixes n m :: int
  assumes "0 < m"
  shows "n = m * (n div m) + n mod m" and "0 \<le> n mod m" and "n mod m < m"
  using assms by simp_all

lemma mod_zero_iff:
  "(n :: int) = m * q + r \<Longrightarrow> 0 < r \<Longrightarrow> r \<le> m \<Longrightarrow> n mod m = 0 \<longleftrightarrow> r = m"
  by (cases "r = m") auto

text \<open>Cutting a span of at most four periods \<open>w\<close> into whole periods, at most three of them.\<close>

lemma cut_periods:
  fixes d w :: int
  assumes "0 \<le> d" and "d \<le> 4 * w" and "0 < w"
  shows "0 \<le> d div w - d div w div 4" and "d div w - d div w div 4 \<le> 3"
    and "0 \<le> d - w * (d div w - d div w div 4)" and "d - w * (d div w - d div w div 4) \<le> w"
    and "d - w * (d div w - d div w div 4) = w \<Longrightarrow> d div w - d div w div 4 = 3 \<and> d = 4 * w"
proof -
  have dm: "d = w * (d div w) + d mod w" "0 \<le> d mod w" "d mod w < w"
    using assms by simp_all
  have le: "0 \<le> d div w" "d div w \<le> 4"
    using assms zdiv_mono1 [of d "4 * w" w] by (simp_all add: pos_imp_zdiv_nonneg_iff)
  consider (last) "d div w = 4" | (within) "d div w < 4" using le by linarith
  then have "0 \<le> d div w - d div w div 4 \<and> d div w - d div w div 4 \<le> 3 \<and>
     0 \<le> d - w * (d div w - d div w div 4) \<and> d - w * (d div w - d div w div 4) \<le> w \<and>
     (d - w * (d div w - d div w div 4) = w \<longrightarrow> d div w - d div w div 4 = 3 \<and> d = 4 * w)"
  proof cases
    case last
    with dm assms(2) have "d = 4 * w" by simp
    with last assms(3) show ?thesis by simp
  next
    case within
    with le have "d div w div 4 = 0" by simp
    moreover have "d - w * (d div w) = d mod w" using dm(1) by linarith
    ultimately show ?thesis using dm(2,3) le within by simp
  qed
  then show "0 \<le> d div w - d div w div 4" "d div w - d div w div 4 \<le> 3"
    "0 \<le> d - w * (d div w - d div w div 4)" "d - w * (d div w - d div w div 4) \<le> w"
    "d - w * (d div w - d div w div 4) = w \<Longrightarrow> d div w - d div w div 4 = 3 \<and> d = 4 * w"
    by blast+
qed

lemma year_cycles:
  obtains a b c e where "y = 400 * a + 100 * b + 4 * c + e + 1" and "cycles b c e"
proof -
  define q r s where "q = y - 1" and "r = q mod 400" and "s = r mod 100"
  have r: "q = 400 * (q div 400) + r" "0 \<le> r" "r < 400"
    unfolding r_def by simp_all
  have s: "r = 100 * (r div 100) + s" "0 \<le> s" "s < 100"
    unfolding s_def by simp_all
  have e: "s = 4 * (s div 4) + s mod 4" "0 \<le> s mod 4" "s mod 4 < 4" by simp_all
  have "y = 400 * (q div 400) + 100 * (r div 100) + 4 * (s div 4) + s mod 4 + 1"
    using r s e q_def by linarith
  moreover have "cycles (r div 100) (s div 4) (s mod 4)"
    unfolding cycles_def using r s e by (intro conjI) linarith+
  ultimately show ?thesis by (rule that)
qed

lemma daysSinceEpoch_cycles:
  assumes "cycles b c e"
  shows "daysSinceEpoch (400 * a + 100 * b + 4 * c + e + 1) = 146097 * a + 36524 * b + 1461 * c + 365 * e"
proof -
  have "(400 * a + 100 * b + 4 * c + e) div 400 = a"
    using assms by (intro div_unique_int [where r = "100 * b + 4 * c + e"]) (auto simp: cycles_def)
  moreover have "(100 * b + 4 * c + e) div 100 = b"
    using assms by (intro div_unique_int [where r = "4 * c + e"]) (auto simp: cycles_def)
  moreover have "(4 * c + e) div 4 = c"
    using assms by (intro div_unique_int [where r = e]) (auto simp: cycles_def)
  ultimately show ?thesis
    unfolding daysSinceEpoch_def Let_def by (simp add: algebra_simps)
qed

lemma isLeap_cycles:
  assumes "cycles b c e"
  shows "isLeap (400 * a + 100 * b + 4 * c + e + 1) \<longleftrightarrow> e = 3 \<and> (c \<noteq> 24 \<or> b = 3)"
proof -
  let ?y = "400 * a + 100 * b + 4 * c + e + 1"
  have "?y = 4 * (100 * a + 25 * b + c) + (e + 1)" by simp
  from mod_zero_iff [OF this] have m4: "?y mod 4 = 0 \<longleftrightarrow> e = 3"
    using assms by (simp add: cycles_def)
  have "e = 3 \<Longrightarrow> ?y = 100 * (4 * a + b) + 4 * (c + 1)" by simp
  from mod_zero_iff [OF this] have m100: "e = 3 \<Longrightarrow> ?y mod 100 = 0 \<longleftrightarrow> c = 24"
    using assms by (simp add: cycles_def)
  have "e = 3 \<Longrightarrow> c = 24 \<Longrightarrow> ?y = 400 * a + 100 * (b + 1)" by simp
  from mod_zero_iff [OF this] have m400: "e = 3 \<Longrightarrow> c = 24 \<Longrightarrow> ?y mod 400 = 0 \<longleftrightarrow> b = 3"
    using assms by (simp add: cycles_def)
  show ?thesis unfolding isLeap_def using m4 m100 m400 by metis
qed

lemma daysSinceEpoch_Suc:
  "daysSinceEpoch (y + 1) = daysSinceEpoch y + (if isLeap y then 366 else 365)"
proof -
  obtain a b c e where y: "y = 400 * a + 100 * b + 4 * c + e + 1" and bce: "cycles b c e"
    by (rule year_cycles)
  note dse = daysSinceEpoch_cycles [where a = a, OF bce] isLeap_cycles [where a = a, OF bce]
  show ?thesis
  proof (cases "e < 3")
    case True
    with bce have "cycles b c (e + 1)" by (simp add: cycles_def)
    from daysSinceEpoch_cycles [OF this, of a] dse True show ?thesis by (simp add: y algebra_simps)
  next
    case e: False
    with bce have e3: "e = 3" by (simp add: cycles_def)
    show ?thesis
    proof (cases "c < 24")
      case True
      with bce have "cycles b (c + 1) 0" by (simp add: cycles_def)
      from daysSinceEpoch_cycles [OF this, of a] dse True e3 show ?thesis
        by (simp add: y algebra_simps)
    next
      case False
      with bce have c: "c = 24" by (simp add: cycles_def)
      have *: "cycles (if b < 3 then b + 1 else 0) 0 0" using bce by (simp add: cycles_def)
      from daysSinceEpoch_cycles [OF *, of "if b < 3 then a else a + 1"] dse c e3 bce show ?thesis
        by (auto simp: y algebra_simps cycles_def split: if_splits)
    qed
  qed
qed

lemma daysSinceEpoch_mono:
  assumes "y < y'"
  shows "daysSinceEpoch y + (if isLeap y then 366 else 365) \<le> daysSinceEpoch y'"
proof -
  have "y + 1 \<le> y'" using assms by simp
  then have "daysSinceEpoch (y + 1) \<le> daysSinceEpoch y'"
  proof (induction y' rule: int_ge_induct)
    case (step i)
    then show ?case using daysSinceEpoch_Suc [of i] by (auto split: if_splits)
  qed simp
  then show ?thesis by (simp add: daysSinceEpoch_Suc)
qed

lemma year_yday_correct:
  assumes "year_yday d = (y, yd)"
  shows "d = daysSinceEpoch y + yd" and "0 \<le> yd" and "yd < (if isLeap y then 366 else 365)"
proof -
  define a d1 where "a = d div 146097" and "d1 = d mod 146097"
  define b d2 where "b = d1 div 36524 - d1 div 36524 div 4" and "d2 = d1 - 36524 * b"
  define c d3 where "c = d2 div 1461" and "d3 = d2 mod 1461"
  define e where "e = d3 div 365 - d3 div 365 div 4"
  have d1: "d = 146097 * a + d1" "0 \<le> d1" "d1 < 146097" by (simp_all add: a_def d1_def)
  have b: "0 \<le> b" "b \<le> 3" "0 \<le> d2" "d2 \<le> 36524" "d2 = 36524 \<longrightarrow> b = 3"
    using cut_periods [OF d1(2), of 36524, folded b_def, folded d2_def] d1(3) by simp_all
  have d3: "d2 = 1461 * c + d3" "0 \<le> d3" "d3 < 1461" by (simp_all add: c_def d3_def)
  have c: "0 \<le> c" "c \<le> 24" using b(3,4) d3 by linarith+
  have e: "0 \<le> e" "e \<le> 3" "0 \<le> d3 - 365 * e" "d3 - 365 * e \<le> 365"
    "d3 - 365 * e = 365 \<longrightarrow> e = 3 \<and> d3 = 1460"
    using cut_periods [OF d3(2), of 365, folded e_def] d3(3) by simp_all
  have bce: "cycles b c e" using b c e by (simp add: cycles_def)
  have "d - 146097 * a = d1" and "d2 - 1461 * c = d3" using d1(1) d3(1) by simp_all
  then have "year_yday d = (400 * a + 100 * b + 4 * c + e + 1, d3 - 365 * e)"
    unfolding year_yday_def Let_def
    by (simp only: a_def [symmetric] b_def [symmetric] d2_def [symmetric] c_def [symmetric]
        e_def [symmetric])
  then have y: "y = 400 * a + 100 * b + 4 * c + e + 1" and yd: "yd = d3 - 365 * e"
    using assms by simp_all
  show "d = daysSinceEpoch y + yd"
    unfolding y yd daysSinceEpoch_cycles [OF bce] using d1(1) d3(1) d2_def by linarith
  show "0 \<le> yd" using e(3) yd by simp
  have "c = 24 \<longrightarrow> d3 = 1460 \<longrightarrow> d2 = 36524" using d3(1) by simp
  with b(5) e(5) have "yd = 365 \<longrightarrow> e = 3 \<and> (c \<noteq> 24 \<or> b = 3)" unfolding yd by blast
  then have "yd = 365 \<longrightarrow> isLeap y" unfolding y isLeap_cycles [OF bce] .
  then show "yd < (if isLeap y then 366 else 365)" using e(4) yd by (auto simp: le_less)
qed

section \<open>Months\<close>

definition month_day_ok :: "bool \<Rightarrow> int \<Rightarrow> bool" where
  "month_day_ok leap yd =
     (case month_day leap yd of (m, dd) \<Rightarrow>
        1 \<le> m \<and> m \<le> 12 \<and> 1 \<le> dd \<and> dd \<le> 31 \<and>
        daysBefore ! nat (m - 1) + (if leap \<and> m \<ge> 3 then 1 else 0) + dd - 1 = yd \<and>
        (yd = 0 \<or> month_day leap (yd - 1) < (m, dd)))"

lemma month_day_table:
  "list_all (month_day_ok False) [0..364]" "list_all (month_day_ok True) [0..365]"
  by code_simp+

lemma month_day_ok:
  assumes "0 \<le> yd" and "yd < (if leap then 366 else 365)"
  shows "month_day_ok leap yd"
  using assms month_day_table by (cases leap) (auto simp: list_all_iff)

lemma month_day_mono:
  assumes "0 \<le> x" and "x < y" and "y < (if leap then 366 else 365)"
  shows "month_day leap x < month_day leap y"
proof -
  have "x + 1 \<le> y" using assms(2) by simp
  then show ?thesis using assms(3)
  proof (induction y rule: int_ge_induct)
    case base
    with assms(1) month_day_ok [of "x + 1" leap] show ?case
      by (auto simp: month_day_ok_def split: prod.splits)
  next
    case (step i)
    then have "month_day leap x < month_day leap i" by (auto split: if_splits)
    also have "month_day leap i < month_day leap (i + 1)"
      using step.hyps step.prems assms(1) month_day_ok [of "i + 1" leap]
      by (auto simp: month_day_ok_def split: prod.splits)
    finally show ?case .
  qed
qed

lemma civil_mono:
  assumes "d < d'"
  shows "civil d < civil d'"
proof -
  obtain y yd where y: "year_yday d = (y, yd)" by (cases "year_yday d")
  obtain y' yd' where y': "year_yday d' = (y', yd')" by (cases "year_yday d'")
  note f = year_yday_correct [OF y] and f' = year_yday_correct [OF y']
  have "y \<le> y'"
  proof (rule ccontr)
    assume "\<not> y \<le> y'"
    then have "daysSinceEpoch y' + (if isLeap y' then 366 else 365) \<le> daysSinceEpoch y"
      by (intro daysSinceEpoch_mono) simp
    with f f' assms show False by linarith
  qed
  then consider (earlier) "y < y'" | (same) "y' = y" "yd < yd'"
    using f f' assms by fastforce
  then show ?thesis
  proof cases
    case earlier
    then show ?thesis by (simp add: civil_def y y')
  next
    case same
    with f(2) f'(3) show ?thesis by (simp add: civil_def y y' month_day_mono)
  qed
qed

lemma civil_less_iff: "civil d < civil d' \<longleftrightarrow> d < d'"
  by (metis civil_mono less_asym linorder_neqE)

lemma civil_bounds:
  assumes "civil d = (y, m, dd)"
  shows "1 \<le> m" "m \<le> 12" "1 \<le> dd" "dd \<le> 31"
    and "Date y m dd = d * day_ns"
proof -
  obtain yd where y: "year_yday d = (y, yd)" and m: "month_day (isLeap y) yd = (m, dd)"
    using assms by (auto simp: civil_def split: prod.splits)
  note f = year_yday_correct [OF y]
  from month_day_ok [OF f(2,3)] m
  have ok: "1 \<le> m \<and> m \<le> 12 \<and> 1 \<le> dd \<and> dd \<le> 31 \<and>
      daysBefore ! nat (m - 1) + (if isLeap y \<and> m \<ge> 3 then 1 else 0) + dd - 1 = yd"
    by (simp add: month_day_ok_def)
  then show "1 \<le> m" "m \<le> 12" "1 \<le> dd" "dd \<le> 31" by auto
  from ok have "daysSinceEpoch y + daysBefore ! nat (m - 1) +
      (if isLeap y \<and> m \<ge> 3 then 1 else 0) + dd - 1 = d"
    using f(1) by linarith
  then show "Date y m dd = d * day_ns" unfolding Date_def by simp
qed

lemma Date_add_days: "Date y m (dd + n) = Date y m dd + n * day_ns"
  by (simp add: Date_def algebra_simps)

lemma AddDate_days_eq: "AddDate_days n t = t + n * day_ns"
proof -
  obtain y m dd where c: "civil (t div day_ns) = (y, m, dd)" by (cases "civil (t div day_ns)")
  have "AddDate_days n t = t div day_ns * day_ns + n * day_ns + t mod day_ns"
    by (simp add: AddDate_days_def c Date_add_days civil_bounds(5) [OF c])
  also have "\<dots> = t + n * day_ns" by (simp add: algebra_simps div_mult_mod_eq)
  finally show ?thesis .
qed

section \<open>The text order of dates\<close>

lemma lex_append_eq:
  fixes xs ys us vs :: "'a::linorder list"
  assumes "length xs = length ys"
  shows "xs @ us < ys @ vs \<longleftrightarrow> xs < ys \<or> xs = ys \<and> us < vs"
  using assms by (induction xs ys rule: list_induct2) auto

fun fixed_width :: "nat \<Rightarrow> nat \<Rightarrow> string" where
  "fixed_width 0 n = []"
| "fixed_width (Suc w) n = fixed_width w (n div 10) @ [digit_char (n mod 10)]"

lemma length_fixed_width [simp]: "length (fixed_width w n) = w"
  by (induction w arbitrary: n) auto

lemma digit_char_less: "a < 10 \<Longrightarrow> b < 10 \<Longrightarrow> digit_char a < digit_char b \<longleftrightarrow> a < b"
  by (simp add: digit_char_def less_char_def of_char_of)

lemma digit_char_eq: "a < 10 \<Longrightarrow> b < 10 \<Longrightarrow> digit_char a = digit_char b \<longleftrightarrow> a = b"
  by (metis digit_char_less less_irrefl linorder_neqE)

lemma last_digit_order:
  fixes n m :: nat
  shows "n div 10 < m div 10 \<or> n div 10 = m div 10 \<and> n mod 10 < m mod 10 \<longleftrightarrow> n < m"
    and "n div 10 = m div 10 \<and> n mod 10 = m mod 10 \<longleftrightarrow> n = m"
proof -
  define a b c d where "a = n div 10" and "b = n mod 10" and "c = m div 10" and "d = m mod 10"
  have nm: "n = 10 * a + b" "m = 10 * c + d" "b < 10" "d < 10"
    by (simp_all add: a_def b_def c_def d_def)
  have "a < c \<or> a = c \<and> b < d \<longleftrightarrow> n < m" using nm by linarith
  then show "n div 10 < m div 10 \<or> n div 10 = m div 10 \<and> n mod 10 < m mod 10 \<longleftrightarrow> n < m"
    unfolding a_def b_def c_def d_def .
  show "n div 10 = m div 10 \<and> n mod 10 = m mod 10 \<longleftrightarrow> n = m"
    by (metis div_mult_mod_eq)
qed

lemma div_10_less: "(n :: nat) < 10 ^ Suc w \<Longrightarrow> n div 10 < 10 ^ w"
  by (simp add: less_mult_imp_div_less mult.commute)

lemma fixed_width_less:
  "n < 10 ^ w \<Longrightarrow> m < 10 ^ w \<Longrightarrow> fixed_width w n < fixed_width w m \<longleftrightarrow> n < m"
  "n < 10 ^ w \<Longrightarrow> m < 10 ^ w \<Longrightarrow> fixed_width w n = fixed_width w m \<longleftrightarrow> n = m"
proof (induction w arbitrary: n m)
  case (Suc w)
  {
    case 1
    then have "n div 10 < 10 ^ w" "m div 10 < 10 ^ w" by (auto intro: div_10_less)
    then show ?case
      using Suc.IH last_digit_order(1) [of n m] by (simp add: lex_append_eq digit_char_less)
  next
    case 2
    then have "n div 10 < 10 ^ w" "m div 10 < 10 ^ w" by (auto intro: div_10_less)
    then show ?case
      using Suc.IH last_digit_order(2) [of n m] by (simp add: digit_char_eq)
  }
qed auto

lemma digit_char_0: "digit_char 0 = CHR ''0''"
  by code_simp

lemma fixed_width_0: "fixed_width w 0 = replicate w (CHR ''0'')"
  by (induction w) (simp_all add: digit_char_0 replicate_append_same)

lemma padded_decimal:
  "n < 10 ^ Suc w \<Longrightarrow>
   replicate (Suc w - length (decimal n)) (CHR ''0'') @ decimal n = fixed_width (Suc w) n \<and>
   length (decimal n) \<le> Suc w"
proof (induction w arbitrary: n)
  case 0
  then show ?case by (simp add: decimal.simps)
next
  case (Suc w)
  show ?case
  proof (cases "n < 10")
    case True
    then show ?thesis
      by (simp add: decimal.simps fixed_width_0 div_less replicate_append_same)
  next
    case False
    from Suc.prems have "n div 10 < 10 ^ Suc w" by (rule div_10_less)
    moreover from False have "decimal n = decimal (n div 10) @ [digit_char (n mod 10)]"
      by (subst decimal.simps) simp
    ultimately show ?thesis using Suc.IH [of "n div 10"] by simp
  qed
qed

lemma appendInt_fixed:
  assumes "0 \<le> x" and "x < 10 ^ Suc w"
  shows "appendInt x (Suc w) = fixed_width (Suc w) (nat x)"
proof -
  have "nat x < 10 ^ Suc w" using assms by (simp add: nat_less_iff)
  from padded_decimal [OF this] assms(1) show ?thesis by (simp add: appendInt_def Let_def)
qed

text \<open>Days in the years 0 to 9999, the range in which a formatted date has ten characters.\<close>

definition date_day :: "int \<Rightarrow> bool" where
  "date_day d \<longleftrightarrow> (case civil d of (y, _) \<Rightarrow> 0 \<le> y \<and> y < 10000)"

lemma format_day_fixed:
  assumes "date_day d" and "civil d = (y, m, dd)"
  shows "format_day d = fixed_width 4 (nat y) @ CHR ''-'' # fixed_width 2 (nat m) @
     CHR ''-'' # fixed_width 2 (nat dd)"
proof -
  note b = civil_bounds [OF assms(2)]
  have S: "Suc 3 = 4" "Suc 1 = 2" by simp_all
  have "appendInt y 4 = fixed_width 4 (nat y)"
    by (rule appendInt_fixed [of y 3, unfolded S]) (use assms in \<open>simp_all add: date_day_def\<close>)
  moreover have "appendInt m 2 = fixed_width 2 (nat m)" "appendInt dd 2 = fixed_width 2 (nat dd)"
    by (rule appendInt_fixed [where w = 1, unfolded S]; use b in simp)+
  ultimately show ?thesis by (simp add: format_day_def assms(2))
qed

lemma format_day_less_iff:
  assumes "date_day d" and "date_day d'"
  shows "format_day d < format_day d' \<longleftrightarrow> d < d'"
proof -
  obtain y m dd where c: "civil d = (y, m, dd)" by (cases "civil d")
  obtain y' m' dd' where c': "civil d' = (y', m', dd')" by (cases "civil d'")
  note b = civil_bounds [OF c] and b' = civil_bounds [OF c']
  have yr: "0 \<le> y" "y < 10000" "0 \<le> y'" "y' < 10000" using assms c c' by (simp_all add: date_day_def)
  have "format_day d < format_day d' \<longleftrightarrow> (y, m, dd) < (y', m', dd')"
    unfolding format_day_fixed [OF assms(1) c] format_day_fixed [OF assms(2) c']
    using b b' yr by (simp add: lex_append_eq fixed_width_less nat_less_iff nat_eq_iff less_prod_simp)
      linarith
  also have "\<dots> \<longleftrightarrow> d < d'" using civil_less_iff [of d d'] c c' by simp
  finally show ?thesis .
qed

lemma format_day_inject:
  assumes "date_day d" and "date_day d'"
  shows "format_day d = format_day d' \<longleftrightarrow> d = d'"
  using format_day_less_iff [OF assms] format_day_less_iff [OF assms(2,1)] by auto

lemma format_day_le_iff:
  assumes "date_day d" and "date_day d'"
  shows "format_day d \<le> format_day d' \<longleftrightarrow> d \<le> d'"
  using format_day_less_iff [OF assms] format_day_inject [OF assms] by (auto simp: le_less)

text \<open>A clock for which today and the day 400 days before it are dates of the years 0 to 9999.\<close>

definition sane_clock :: "time \<Rightarrow> bool" where
  "sane_clock now \<longleftrightarrow> date_day (now div day_ns) \<and> date_day (now div day_ns - 400)"

lemma day_ns_pos: "0 < day_ns"
  by (simp add: day_ns_def)

lemma AddDate_days_day: "AddDate_days n t div day_ns = t div day_ns + n"
  using day_ns_pos by (simp add: AddDate_days_eq)

lemma date_day_between:
  assumes "date_day a" and "date_day b" and "a \<le> d" and "d \<le> b"
  shows "date_day d"
proof -
  have mono: "fst (civil x) \<le> fst (civil x')" if "x \<le> x'" for x x'
  proof (cases "x = x'")
    case False
    with that have "civil x < civil x'" by (simp add: civil_mono)
    then show ?thesis by (cases "civil x"; cases "civil x'") auto
  qed simp
  from mono [OF assms(3)] mono [OF assms(4)] assms(1,2) show ?thesis
    by (auto simp: date_day_def split: prod.splits)
qed

lemma cutoff_before_today:
  assumes "sane_clock now"
  shows "PruneCutoffDate now < CurrentDateUTC now"
  using assms by (simp add: PruneCutoffDate_def CurrentDateUTC_def FormatDateUTC_def
      AddDate_days_day format_day_less_iff sane_clock_def)

end
