(* ===== verification/Config_Json.thy ===== *)
theory Config_Json
  imports Config Dates
begin

text \<open>
  Loading a configuration file: \<open>Load\<close>, \<open>LoadFromFile\<close> and \<open>Parse\<close> of
  \<open>internal/config/config.go\<close>, with what \<open>json.Unmarshal\<close> of Go's \<open>encoding/json\<close> does with the
  bytes: the scanner's state machine, the decoding of string literals, the case-insensitive match of
  keys with fields, and the assignment of values to the fields of \<open>Config\<close> over the defaults. Strings
  are byte strings, a character being a byte.
\<close>

section \<open>The scanner\<close>

text \<open>
  A JSON value. A number keeps its literal text; a string and a key are decoded; an object keeps its
  members in order with their repetitions.
\<close>

datatype json =
    JNull
  | JBool bool
  | JNumber string
  | JString string
  | JArray "json list"
  | JObject "(string \<times> json) list"

subsection \<open>String literals\<close>

definition rune_error :: string where
  "rune_error = map char_of [0xEF :: nat, 0xBF, 0xBD]"

text \<open>
  The length of the UTF-8 encoding at the head of a string that does not start with an ASCII byte, or
  0 when there is none (\<open>utf8.DecodeRune\<close> then reports one invalid byte).
\<close>

definition continuation :: "nat \<Rightarrow> bool" where
  "continuation b \<longleftrightarrow> 0x80 \<le> b \<and> b \<le> 0xBF"

definition utf8_length :: "nat list \<Rightarrow> nat" where
  "utf8_length bs =
     (case bs of
        a # b # r \<Rightarrow>
          if 0xC2 \<le> a \<and> a \<le> 0xDF then (if continuation b then 2 else 0)
          else (case r of
             c # r' \<Rightarrow>
               if 0xE0 \<le> a \<and> a \<le> 0xEF
               then (if (if a = 0xE0 then 0xA0 else 0x80) \<le> b \<and> b \<le> (if a = 0xED then 0x9F else 0xBF)
                        \<and> continuation c then 3 else 0)
               else (case r' of
                  d # _ \<Rightarrow>
                    if 0xF0 \<le> a \<and> a \<le> 0xF4
                       \<and> (if a = 0xF0 then 0x90 else 0x80) \<le> b \<and> b \<le> (if a = 0xF4 then 0x8F else 0xBF)
                       \<and> continuation c \<and> continuation d then 4 else 0
                | [] \<Rightarrow> 0)
           | [] \<Rightarrow> 0)
      | _ \<Rightarrow> 0)"

definition encode_rune :: "nat \<Rightarrow> string" where
  "encode_rune r = map char_of
     (if r < 0x80 then [r]
      else if r < 0x800 then [0xC0 + r div 64, 0x80 + r mod 64]
      else if r < 0x10000 then [0xE0 + r div 4096, 0x80 + r div 64 mod 64, 0x80 + r mod 64]
      else [0xF0 + r div 262144, 0x80 + r div 4096 mod 64, 0x80 + r div 64 mod 64, 0x80 + r mod 64])"

definition hex_value :: "char \<Rightarrow> nat option" where
  "hex_value c =
     (let n = of_char c in
      if 48 \<le> n \<and> n \<le> 57 then Some (n - 48)
      else if 97 \<le> n \<and> n \<le> 102 then Some (n - 87)
      else if 65 \<le> n \<and> n \<le> 70 then Some (n - 55) else None)"

fun hex4 :: "string \<Rightarrow> nat option" where
  "hex4 (a # b # c # d # _) =
     (case (hex_value a, hex_value b, hex_value c, hex_value d) of
        (Some w, Some x, Some y, Some z) \<Rightarrow> Some (((w * 16 + x) * 16 + y) * 16 + z)
      | _ \<Rightarrow> None)"
| "hex4 _ = None"

text \<open>
  The text after \<open>\u\<close>: what it stands for, and how many characters it takes. A high surrogate followed
  by an escaped low one is one rune; any other surrogate becomes the replacement character.
\<close>

definition getu4 :: "string \<Rightarrow> nat option" where
  "getu4 s = (case s of a # b # r \<Rightarrow> if a = CHR 0x5C \<and> b = CHR ''u'' then hex4 r else None | _ \<Rightarrow> None)"

definition unicode_escape :: "string \<Rightarrow> string \<times> nat" where
  "unicode_escape s =
     (case hex4 s of
        None \<Rightarrow> ([], 0)
      | Some r \<Rightarrow>
          if 0xD800 \<le> r \<and> r \<le> 0xDFFF
          then (case getu4 (drop 4 s) of
                  Some r' \<Rightarrow>
                    if r \<le> 0xDBFF \<and> 0xDC00 \<le> r' \<and> r' \<le> 0xDFFF
                    then (encode_rune ((r - 0xD800) * 1024 + (r' - 0xDC00) + 0x10000), 10)
                    else (rune_error, 4)
                | None \<Rightarrow> (rune_error, 4))
          else (encode_rune r, 4))"

definition escaped_char :: "char \<Rightarrow> char" where
  "escaped_char c =
     (if c = CHR ''b'' then CHR 0x08 else if c = CHR ''f'' then CHR 0x0C
      else if c = CHR ''n'' then CHR 0x0A else if c = CHR ''r'' then CHR 0x0D
      else if c = CHR ''t'' then CHR 0x09 else c)"

text \<open>\<open>unquote\<close>, on the text between the quotation marks of a literal the scanner accepted.\<close>

function unquote :: "string \<Rightarrow> string" where
  "unquote [] = []"
| "unquote (c # s) =
     (if c = CHR 0x5C
      then (case s of
              [] \<Rightarrow> []
            | e # r \<Rightarrow>
                if e = CHR ''u''
                then (case unicode_escape r of (out, k) \<Rightarrow> out @ unquote (drop k r))
                else escaped_char e # unquote r)
      else if of_char c < (0x80 :: nat) then c # unquote s
      else (let k = utf8_length (map of_char (c # s))
            in if k = 0 then rune_error @ unquote s
               else c # take (k - 1) s @ unquote (drop (k - 1) s)))"
  by pat_completeness auto
termination
  by (relation "measure length") auto

subsection \<open>The state machine\<close>

text \<open>
  \<open>frame\<close> is an entry of the scanner's stack with what was read of the array or object, in reverse;
  the states are the step functions of \<open>scanner.go\<close>, those inside a literal with the text read so far,
  in reverse.
\<close>

datatype frame =
    InArray "json list"
  | InObject "(string \<times> json) list"
  | InMember "(string \<times> json) list" string

datatype num_state = Neg | Int0 | Int1 | Dot | Dot0 | E | ESign | E0

datatype step =
    BeginValueOrEmpty
  | BeginValue
  | BeginStringOrEmpty
  | BeginString
  | InString string
  | InStringEsc string
  | InStringEscU nat string
  | InNumber num_state string
  | InLiteral string json
  | EndKey
  | EndValue
  | EndTop json

type_synonym scan_state = "step \<times> frame list"

definition isSpace :: "char \<Rightarrow> bool" where
  "isSpace c \<longleftrightarrow> c = CHR '' '' \<or> c = CHR 0x09 \<or> c = CHR 0x0D \<or> c = CHR 0x0A"

definition is_digit :: "char \<Rightarrow> bool" where
  "is_digit c \<longleftrightarrow> (let n = of_char c in (48 :: nat) \<le> n \<and> n \<le> 57)"

definition maxNestingDepth :: nat where
  "maxNestingDepth = 10000"

definition pushParseState :: "frame \<Rightarrow> step \<Rightarrow> frame list \<Rightarrow> scan_state option" where
  "pushParseState f next_step stack =
     (if Suc (length stack) \<le> maxNestingDepth then Some (next_step, f # stack) else None)"

text \<open>A value is complete: it goes to the frame that waits for it.\<close>

fun end_value :: "json \<Rightarrow> frame list \<Rightarrow> scan_state" where
  "end_value v [] = (EndTop v, [])"
| "end_value v (InArray vs # stack) = (EndValue, InArray (v # vs) # stack)"
| "end_value v (InMember ms k # stack) = (EndValue, InObject ((k, v) # ms) # stack)"
| "end_value v (InObject ms # stack) = (EndValue, InObject ms # stack)"

text \<open>A string literal is complete: it is a key when the innermost frame waits for one.\<close>

fun end_string :: "string \<Rightarrow> frame list \<Rightarrow> scan_state" where
  "end_string s (InObject ms # stack) = (EndKey, InMember ms s # stack)"
| "end_string s stack = end_value (JString s) stack"

definition begin_value :: "char \<Rightarrow> frame list \<Rightarrow> scan_state option" where
  "begin_value c stack =
     (if isSpace c then Some (BeginValue, stack)
      else if c = CHR ''{'' then pushParseState (InObject []) BeginStringOrEmpty stack
      else if c = CHR ''['' then pushParseState (InArray []) BeginValueOrEmpty stack
      else if c = CHR ''\"'' then Some (InString [], stack)
      else if c = CHR ''-'' then Some (InNumber Neg [c], stack)
      else if c = CHR ''0'' then Some (InNumber Int0 [c], stack)
      else if c = CHR ''t'' then Some (InLiteral ''rue'' (JBool True), stack)
      else if c = CHR ''f'' then Some (InLiteral ''alse'' (JBool False), stack)
      else if c = CHR ''n'' then Some (InLiteral ''ull'' JNull, stack)
      else if is_digit c then Some (InNumber Int1 [c], stack)
      else None)"

definition end_array :: "frame list \<Rightarrow> scan_state option" where
  "end_array stack =
     (case stack of InArray vs # rest \<Rightarrow> Some (end_value (JArray (rev vs)) rest) | _ \<Rightarrow> None)"

definition end_object :: "frame list \<Rightarrow> scan_state option" where
  "end_object stack =
     (case stack of InObject ms # rest \<Rightarrow> Some (end_value (JObject (rev ms)) rest) | _ \<Rightarrow> None)"

text \<open>A character after a complete value.\<close>

definition after_value :: "char \<Rightarrow> scan_state \<Rightarrow> scan_state option" where
  "after_value c st =
     (case st of
        (EndTop v, stack) \<Rightarrow> if isSpace c then Some (EndTop v, stack) else None
      | (_, stack) \<Rightarrow>
          if isSpace c then Some (EndValue, stack)
          else (case stack of
                  InArray vs # _ \<Rightarrow>
                    if c = CHR '','' then Some (BeginValue, stack)
                    else if c = CHR '']'' then end_array stack else None
                | InObject ms # _ \<Rightarrow>
                    if c = CHR '','' then Some (BeginString, stack)
                    else if c = CHR ''}'' then end_object stack else None
                | _ \<Rightarrow> None))"

definition end_number :: "char \<Rightarrow> string \<Rightarrow> frame list \<Rightarrow> scan_state option" where
  "end_number c text stack = after_value c (end_value (JNumber (rev text)) stack)"

definition number_step :: "num_state \<Rightarrow> char \<Rightarrow> string \<Rightarrow> frame list \<Rightarrow> scan_state option" where
  "number_step n c text stack =
     (let go = (\<lambda>n'. Some (InNumber n' (c # text), stack)); exp = (c = CHR ''e'' \<or> c = CHR ''E'') in
      case n of
        Neg \<Rightarrow> if c = CHR ''0'' then go Int0 else if is_digit c then go Int1 else None
      | Int1 \<Rightarrow> if is_digit c then go Int1 else if c = CHR ''.'' then go Dot
               else if exp then go E else end_number c text stack
      | Int0 \<Rightarrow> if c = CHR ''.'' then go Dot else if exp then go E else end_number c text stack
      | Dot \<Rightarrow> if is_digit c then go Dot0 else None
      | Dot0 \<Rightarrow> if is_digit c then go Dot0 else if exp then go E else end_number c text stack
      | E \<Rightarrow> if c = CHR ''+'' \<or> c = CHR ''-'' then go ESign else if is_digit c then go E0 else None
      | ESign \<Rightarrow> if is_digit c then go E0 else None
      | E0 \<Rightarrow> if is_digit c then go E0 else end_number c text stack)"

definition scan_step :: "char \<Rightarrow> scan_state \<Rightarrow> scan_state option" where
  "scan_step c st =
     (case st of (step, stack) \<Rightarrow>
        case step of
          BeginValueOrEmpty \<Rightarrow>
            if isSpace c then Some (BeginValueOrEmpty, stack)
            else if c = CHR '']'' then end_array stack else begin_value c stack
        | BeginValue \<Rightarrow> begin_value c stack
        | BeginStringOrEmpty \<Rightarrow>
            if isSpace c then Some (BeginStringOrEmpty, stack)
            else if c = CHR ''}'' then end_object stack
            else if c = CHR ''\"'' then Some (InString [], stack) else None
        | BeginString \<Rightarrow>
            if isSpace c then Some (BeginString, stack)
            else if c = CHR ''\"'' then Some (InString [], stack) else None
        | InString text \<Rightarrow>
            if c = CHR ''\"'' then Some (end_string (unquote (rev text)) stack)
            else if c = CHR 0x5C then Some (InStringEsc (c # text), stack)
            else if of_char c < (0x20 :: nat) then None
            else Some (InString (c # text), stack)
        | InStringEsc text \<Rightarrow>
            if c \<in> {CHR ''b'', CHR ''f'', CHR ''n'', CHR ''r'', CHR ''t'', CHR 0x5C, CHR ''/'', CHR ''\"''}
            then Some (InString (c # text), stack)
            else if c = CHR ''u'' then Some (InStringEscU 4 (c # text), stack) else None
        | InStringEscU k text \<Rightarrow>
            if hex_value c = None then None
            else Some (if k \<le> 1 then InString (c # text) else InStringEscU (k - 1) (c # text), stack)
        | InNumber n text \<Rightarrow> number_step n c text stack
        | InLiteral rest v \<Rightarrow>
            (case rest of
               [] \<Rightarrow> None
             | x # xs \<Rightarrow>
                 if c \<noteq> x then None
                 else Some (if xs = [] then end_value v stack else (InLiteral xs v, stack)))
        | EndKey \<Rightarrow>
            if isSpace c then Some (EndKey, stack)
            else if c = CHR '':'' then Some (BeginValue, stack) else None
        | EndValue \<Rightarrow> after_value c (EndValue, stack)
        | EndTop v \<Rightarrow> after_value c (EndTop v, stack))"

fun scan_run :: "string \<Rightarrow> scan_state \<Rightarrow> scan_state option" where
  "scan_run [] st = Some st"
| "scan_run (c # cs) st = Option.bind (scan_step c st) (scan_run cs)"

text \<open>The end of the input is scanned as a space.\<close>

definition json_scan :: "string \<Rightarrow> json result" where
  "json_scan data =
     (case scan_run (data @ '' '') (BeginValue, []) of
        Some (EndTop v, _) \<Rightarrow> Ok v
      | _ \<Rightarrow> Fail (ExtErr ''json: invalid syntax''))"

section \<open>Fields\<close>

datatype field =
    FInterfaces | FBindAddress | FDatabasePath | FFlushInterval | FHousekeepingInterval | FLogLevel | FAllowPartial

definition config_fields :: "field list" where
  "config_fields = [FInterfaces, FBindAddress, FDatabasePath, FFlushInterval, FHousekeepingInterval, FLogLevel, FAllowPartial]"

fun field_name :: "field \<Rightarrow> string" where
  "field_name FInterfaces = ''Interfaces''"
| "field_name FBindAddress = ''BindAddress''"
| "field_name FDatabasePath = ''DatabasePath''"
| "field_name FFlushInterval = ''FlushInterval''"
| "field_name FHousekeepingInterval = ''HousekeepingInterval''"
| "field_name FLogLevel = ''LogLevel''"
| "field_name FAllowPartial = ''AllowPartial''"

definition upper_char :: "char \<Rightarrow> char" where
  "upper_char c = (let n = of_char c in if (97 :: nat) \<le> n \<and> n \<le> 122 then char_of (n - 32) else c)"

text \<open>
  \<open>foldName\<close>, as far as it can meet a field's name: ASCII letters are folded to upper case, the Kelvin
  sign U+212A to \<open>K\<close> and the long s U+017F to \<open>S\<close>. No other rune folds to an ASCII letter.
\<close>

fun foldName :: "string \<Rightarrow> string" where
  "foldName (a # b # c # s) =
     (if a = CHR 0xE2 \<and> b = CHR 0x84 \<and> c = CHR 0xAA then CHR ''K'' # foldName s
      else if a = CHR 0xC5 \<and> b = CHR 0xBF then CHR ''S'' # foldName (c # s)
      else upper_char a # foldName (b # c # s))"
| "foldName [a, b] = (if a = CHR 0xC5 \<and> b = CHR 0xBF then ''S'' else [upper_char a, upper_char b])"
| "foldName [a] = [upper_char a]"
| "foldName [] = []"

definition match_field :: "string \<Rightarrow> field option" where
  "match_field key =
     (case find (\<lambda>f. field_name f = key) config_fields of
        Some f \<Rightarrow> Some f
      | None \<Rightarrow> find (\<lambda>f. foldName (field_name f) = foldName key) config_fields)"

section \<open>Assignment\<close>

text \<open>
  The decoder writes into the struct it is given. A slice keeps its backing array: the state is the
  configuration and the elements of the array of \<open>Interfaces\<close> beyond its length. \<open>None\<close> is an
  \<open>UnmarshalTypeError\<close>; the decoder goes on after one, but \<open>Unmarshal\<close> returns it.
\<close>

type_synonym decode_state = "Config \<times> string list"

fun set_string :: "json \<Rightarrow> string \<Rightarrow> string option" where
  "set_string (JString s) old = Some s"
| "set_string JNull old = Some old"
| "set_string _ old = None"

fun set_int :: "json \<Rightarrow> int \<Rightarrow> int option" where
  "set_int (JNumber text) old = (case Atoi text of Inl _ \<Rightarrow> None | Inr n \<Rightarrow> Some n)"
| "set_int JNull old = Some old"
| "set_int _ old = None"

fun set_bool :: "json \<Rightarrow> bool \<Rightarrow> bool option" where
  "set_bool (JBool b) old = Some b"
| "set_bool JNull old = Some old"
| "set_bool _ old = None"

text \<open>Elements are decoded into the backing array in place; fresh memory holds empty strings.\<close>

fun set_elems :: "json list \<Rightarrow> string list \<Rightarrow> string list option" where
  "set_elems [] array = Some []"
| "set_elems (v # vs) array =
     Option.bind (set_string v (case array of [] \<Rightarrow> [] | a # _ \<Rightarrow> a))
       (\<lambda>s. map_option ((#) s) (set_elems vs (tl array)))"

fun set_strings :: "json \<Rightarrow> decode_state \<Rightarrow> decode_state option" where
  "set_strings (JArray vs) (cfg, spare) =
     (if vs = [] then Some (cfg\<lparr>Interfaces := []\<rparr>, [])
      else map_option (\<lambda>xs. (cfg\<lparr>Interfaces := xs\<rparr>, drop (length vs) (Interfaces cfg @ spare)))
             (set_elems vs (Interfaces cfg @ spare)))"
| "set_strings JNull (cfg, spare) = Some (cfg\<lparr>Interfaces := []\<rparr>, [])"
| "set_strings _ _ = None"

definition set_field :: "field \<Rightarrow> json \<Rightarrow> decode_state \<Rightarrow> decode_state option" where
  "set_field f v st =
     (let cfg = fst st; keep = (\<lambda>c. (c, snd st)) in
      case f of
        FInterfaces \<Rightarrow> set_strings v st
      | FBindAddress \<Rightarrow> map_option (\<lambda>s. keep (cfg\<lparr>BindAddress := s\<rparr>)) (set_string v (BindAddress cfg))
      | FDatabasePath \<Rightarrow> map_option (\<lambda>s. keep (cfg\<lparr>DatabasePath := s\<rparr>)) (set_string v (DatabasePath cfg))
      | FFlushInterval \<Rightarrow> map_option (\<lambda>n. keep (cfg\<lparr>FlushInterval := n\<rparr>)) (set_int v (FlushInterval cfg))
      | FHousekeepingInterval \<Rightarrow>
          map_option (\<lambda>n. keep (cfg\<lparr>HousekeepingInterval := n\<rparr>)) (set_int v (HousekeepingInterval cfg))
      | FLogLevel \<Rightarrow> map_option (\<lambda>s. keep (cfg\<lparr>LogLevel := s\<rparr>)) (set_string v (LogLevel cfg))
      | FAllowPartial \<Rightarrow> map_option (\<lambda>b. keep (cfg\<lparr>AllowPartial := b\<rparr>)) (set_bool v (AllowPartial cfg)))"

fun set_members :: "(string \<times> json) list \<Rightarrow> decode_state \<Rightarrow> decode_state option" where
  "set_members [] st = Some st"
| "set_members ((k, v) # ms) st =
     Option.bind (case match_field k of None \<Rightarrow> Some st | Some f \<Rightarrow> set_field f v st) (set_members ms)"

definition Unmarshal :: "string \<Rightarrow> Config \<Rightarrow> Config result" where
  "Unmarshal data cfg =
     bind_result (json_scan data) (\<lambda>v.
       case (case v of JObject ms \<Rightarrow> set_members ms (cfg, []) | JNull \<Rightarrow> Some (cfg, []) | _ \<Rightarrow> None) of
         None \<Rightarrow> Fail (ExtErr ''json: cannot unmarshal'')
       | Some (c, _) \<Rightarrow> Ok c)"

section \<open>Loading\<close>

definition Parse :: "string \<Rightarrow> Config result" where
  "Parse data =
     (case Unmarshal data New_config of
        Inl e \<Rightarrow> Fail (wrap_err ''failed to parse config JSON: %w'' e)
      | Inr cfg \<Rightarrow> Ok cfg)"

text \<open>\<open>ReadFile\<close> is the file system's answer.\<close>

definition LoadFromFile :: "(string \<Rightarrow> string result) \<Rightarrow> string \<Rightarrow> Config result" where
  "LoadFromFile ReadFile path =
     (case ReadFile path of
        Inl e \<Rightarrow> Fail (wrap_err ''failed to read config file: %w'' e)
      | Inr data \<Rightarrow> Parse data)"

definition Load :: "(string \<Rightarrow> string result) \<Rightarrow> string \<Rightarrow> Config result" where
  "Load ReadFile path = (if path = [] then Ok New_config else LoadFromFile ReadFile path)"

section \<open>Keys that are not fields\<close>

lemma foldName_underscore: "CHR ''_'' \<in> set k \<Longrightarrow> CHR ''_'' \<in> set (foldName k)"
  by (induction k rule: foldName.induct) (auto simp: upper_char_def)

lemma match_field_underscore:
  assumes "CHR ''_'' \<in> set k"
  shows "match_field k = None"
proof -
  have "list_all (\<lambda>f. CHR ''_'' \<notin> set (field_name f) \<and> CHR ''_'' \<notin> set (foldName (field_name f))) config_fields"
    by code_simp
  with assms foldName_underscore [OF assms] have "field_name f \<noteq> k" "foldName (field_name f) \<noteq> foldName k"
    if "f \<in> set config_fields" for f using that by (auto simp: list_all_iff)
  then have "find (\<lambda>f. field_name f = k) config_fields = None" "find (\<lambda>f. foldName (field_name f) = foldName k) config_fields = None"
    by (auto simp: find_None_iff)
  then show ?thesis by (simp add: match_field_def)
qed

lemma set_strings_only: "set_strings v (cfg, spare) = Some (cfg', spare') \<Longrightarrow> \<exists>xs. cfg' = cfg\<lparr>Interfaces := xs\<rparr>"
  by (cases v) (auto split: if_splits)

lemma set_members_interfaces_only:
  assumes "set_members ms st = Some st'"
    and "\<forall>(k, v) \<in> set ms. CHR ''_'' \<in> set k \<or> match_field k = Some FInterfaces"
  shows "fst st' = (fst st)\<lparr>Interfaces := Interfaces (fst st')\<rparr>"
  using assms
proof (induction ms st rule: set_members.induct)
  case (2 k v ms st)
  consider "match_field k = None" | "match_field k = Some FInterfaces"
    using "2.prems"(2) match_field_underscore by auto
  then show ?case
  proof cases
    case 1
    with 2 show ?thesis by auto
  next
    case 2
    with "2.prems"(1) obtain st1 where st1: "set_strings v st = Some st1" "set_members ms st1 = Some st'"
      by (cases "set_strings v st") (auto simp: set_field_def Let_def)
    obtain xs where "fst st1 = (fst st)\<lparr>Interfaces := xs\<rparr>"
      using set_strings_only [of v "fst st" "snd st" "fst st1" "snd st1"] st1(1) by auto
    moreover have "fst st' = (fst st1)\<lparr>Interfaces := Interfaces (fst st')\<rparr>"
      using "2.IH" [of st1] st1 2 "2.prems"(2) by (simp add: set_field_def)
    ultimately show ?thesis by (metis Config.update_convs(1) Config.surjective)
  qed
qed simp

text \<open>C39. The keys the documentation gives for a configuration file are ignored: a key with an underscore
  matches no field, so a file whose keys are \<open>interfaces\<close> and keys with underscores
  (\<open>bind_address\<close>, \<open>database_path\<close>, \<open>flush_interval\<close>, \<open>log_level\<close>, \<open>allow_partial\<close>, \dots) yields the
  defaults for everything but the interfaces, whatever the values say.\<close>

theorem underscore_keys_ignored:
  assumes "json_scan data = Ok (JObject ms)"
    and "\<forall>(k, v) \<in> set ms. CHR ''_'' \<in> set k \<or> match_field k = Some FInterfaces"
    and "Parse data = Ok c"
  shows "c = New_config\<lparr>Interfaces := Interfaces c\<rparr>"
proof -
  from assms(1,3) obtain spare where "set_members ms (New_config, []) = Some (c, spare)"
    by (auto simp: Parse_def Unmarshal_def split: option.splits prod.splits)
  from set_members_interfaces_only [OF this assms(2)] show ?thesis by simp
qed

text \<open>The file \<open>examples/config.json\<close>, with another port and partial operation allowed.\<close>

definition example_config :: string where
  \<open>example_config =
     ''{'' @ [CHR 0x0A] @
     ''  "interfaces": ["eth0", "wg0"],'' @ [CHR 0x0A] @
     ''  "bind_address": "127.0.0.1:9090",'' @ [CHR 0x0A] @
     ''  "database_path": "/var/lib/traffic-count/traffic-count.db",'' @ [CHR 0x0A] @
     ''  "flush_interval": 10,'' @ [CHR 0x0A] @
     ''  "log_level": "info",'' @ [CHR 0x0A] @
     ''  "allow_partial": true'' @ [CHR 0x0A] @
     ''}'' @ [CHR 0x0A]\<close>

lemma example_scan:
  "json_scan example_config = Ok (JObject
     [(''interfaces'', JArray [JString ''eth0'', JString ''wg0'']),
      (''bind_address'', JString ''127.0.0.1:9090''),
      (''database_path'', JString ''/var/lib/traffic-count/traffic-count.db''),
      (''flush_interval'', JNumber ''10''), (''log_level'', JString ''info''), (''allow_partial'', JBool True)])"
  by code_simp

theorem underscore_keys_ignored_witness:
  "\<exists>c. Parse example_config = Ok c \<and> DatabasePath c = ''./traffic-count.db'' \<and>
     BindAddress c = ''127.0.0.1:8080'' \<and> \<not> AllowPartial c"
proof -
  have "\<not> isl (Parse example_config)" by code_simp
  then obtain c where c: "Parse example_config = Ok c" by (cases "Parse example_config") auto
  have "match_field ''interfaces'' = Some FInterfaces" by code_simp
  then obtain xs where "c = New_config\<lparr>Interfaces := xs\<rparr>"
    using underscore_keys_ignored [OF example_scan _ c] by auto
  with c show ?thesis by (simp add: New_config_def)
qed

section \<open>Writing a configuration\<close>

text \<open>A JSON text for a configuration: strings of printable ASCII characters, integers in decimal.\<close>

definition quote_char :: "char \<Rightarrow> string" where
  "quote_char c = (if c = CHR ''\"'' \<or> c = CHR 0x5C then [CHR 0x5C, c] else [c])"

definition json_string :: "string \<Rightarrow> string" where
  "json_string s = CHR ''\"'' # concat (map quote_char s) @ ''\"''"

definition int_text :: "int \<Rightarrow> string" where
  "int_text n = (if n < 0 then CHR ''-'' # decimal (nat (- n)) else decimal (nat n))"

fun commas :: "string list \<Rightarrow> string" where
  "commas [] = []"
| "commas [x] = x"
| "commas (x # y # xs) = x @ CHR '','' # commas (y # xs)"

fun json_text :: "json \<Rightarrow> string" where
  "json_text JNull = ''null''"
| "json_text (JBool b) = (if b then ''true'' else ''false'')"
| "json_text (JNumber t) = t"
| "json_text (JString s) = json_string s"
| "json_text (JArray vs) = CHR ''['' # commas (map json_text vs) @ '']''"
| "json_text (JObject ms) =
     CHR ''{'' # commas (map (\<lambda>(k, v). json_string k @ CHR '':'' # json_text v) ms) @ ''}''"

definition printable :: "string \<Rightarrow> bool" where
  "printable s \<longleftrightarrow> (\<forall>c \<in> set s. 0x20 \<le> (of_char c :: nat) \<and> of_char c < (0x80 :: nat))"

fun plain_json :: "json \<Rightarrow> bool" where
  "plain_json (JNumber t) \<longleftrightarrow> (\<exists>n. t = int_text n)"
| "plain_json (JString s) \<longleftrightarrow> printable s"
| "plain_json (JArray vs) \<longleftrightarrow> (\<forall>v \<in> set vs. plain_json v)"
| "plain_json (JObject ms) \<longleftrightarrow> (\<forall>(k, v) \<in> set ms. printable k \<and> plain_json v)"
| "plain_json _ \<longleftrightarrow> True"

fun depth :: "json \<Rightarrow> nat" where
  "depth (JArray vs) = Suc (Max (insert 0 (depth ` set vs)))"
| "depth (JObject ms) = Suc (Max (insert 0 ((\<lambda>(k, v). depth v) ` set ms)))"
| "depth _ = 0"

subsection \<open>Strings\<close>

lemma unquote_quoted: "printable s \<Longrightarrow> unquote (concat (map quote_char s)) = s"
  by (induction s) (auto simp: quote_char_def printable_def escaped_char_def)

lemma scan_quoted:
  "printable s \<Longrightarrow> scan_run (concat (map quote_char s) @ CHR ''\"'' # r) (InString acc, st) =
     scan_run r (end_string (unquote (rev acc @ concat (map quote_char s))) st)"
proof (induction s arbitrary: acc)
  case (Cons c s)
  then have "\<not> of_char c < (0x20 :: nat)" "printable s" by (auto simp: printable_def)
  with Cons.IH show ?case by (simp add: quote_char_def scan_step_def)
qed (simp add: scan_step_def)

lemma scan_string:
  assumes "printable s" and "step \<in> {BeginValue, BeginString, BeginStringOrEmpty, BeginValueOrEmpty}"
  shows "scan_run (json_string s @ r) (step, st) = scan_run r (end_string s st)"
proof -
  have "scan_step CHR ''\"'' (step, st) = Some (InString [], st)"
    using assms(2) by (auto simp: scan_step_def begin_value_def isSpace_def)
  then show ?thesis
    using scan_quoted [OF assms(1), of r "[]" st] unquote_quoted [OF assms(1)] by (simp add: json_string_def)
qed

subsection \<open>Numbers\<close>

lemma decimal_digits: "\<forall>c \<in> set (decimal n). is_digit c" "decimal n \<noteq> []"
proof (induction n rule: decimal.induct)
  case (1 n)
  {
    case 1
    have "is_digit (digit_char m)" if "m < 10" for m
      using that by (simp add: is_digit_def digit_char_def)
    with "1.IH" show ?case by (subst decimal.simps) (auto simp: Let_def)
  next
    case 2
    show ?case by (subst decimal.simps) simp
  }
qed

lemma digit_char_zero_iff: "m < 10 \<Longrightarrow> digit_char m = CHR ''0'' \<longleftrightarrow> m = 0"
  by (simp add: digit_char_def char_of_eq_iff take_bit_eq_mod)

lemma decimal_head: "0 < n \<Longrightarrow> hd (decimal n) \<noteq> CHR ''0''"
proof (induction n rule: decimal.induct)
  case (1 n)
  then show ?case by (subst decimal.simps) (auto simp: digit_char_zero_iff decimal_digits div_greater_zero_iff)
qed

definition delimiter :: "char \<Rightarrow> bool" where
  "delimiter c \<longleftrightarrow> c = CHR '','' \<or> c = CHR '']'' \<or> c = CHR ''}'' \<or> c = CHR '' ''"

lemma scan_step_end_value: "scan_step c (end_value v st) = after_value c (end_value v st)"
  by (cases "(v, st)" rule: end_value.cases) (simp_all add: scan_step_def)

lemma scan_digits:
  assumes "\<forall>c \<in> set ds. is_digit c" and "delimiter c"
  shows "scan_run (ds @ c # r) (InNumber Int1 acc, st) = scan_run (c # r) (end_value (JNumber (rev acc @ ds)) st)"
  using assms(1)
proof (induction ds arbitrary: acc)
  case Nil
  with assms(2) show ?case
    by (auto simp: scan_step_def [of _ "(InNumber _ _, _)"] number_step_def delimiter_def is_digit_def Let_def
        end_number_def scan_step_end_value)
next
  case (Cons d ds)
  then show ?case by (simp add: scan_step_def number_step_def Let_def)
qed

lemma scan_zero:
  "delimiter c \<Longrightarrow> scan_run (c # r) (InNumber Int0 acc, st) = scan_run (c # r) (end_value (JNumber (rev acc)) st)"
  by (auto simp: scan_step_def [of _ "(InNumber _ _, _)"] number_step_def delimiter_def is_digit_def Let_def
      end_number_def scan_step_end_value)

lemma scan_go: "scan_step c st = Some st' \<Longrightarrow> scan_run (c # cs) st = scan_run cs st'"
  by simp

lemma is_digit_neq:
  "is_digit d \<Longrightarrow> \<not> isSpace d \<and> d \<noteq> CHR ''{'' \<and> d \<noteq> CHR ''['' \<and> d \<noteq> CHR ''\"'' \<and> d \<noteq> CHR ''-'' \<and>
     d \<noteq> CHR ''t'' \<and> d \<noteq> CHR ''f'' \<and> d \<noteq> CHR ''n'' \<and> d \<noteq> CHR '']'' \<and> d \<noteq> CHR ''}'' \<and> d \<noteq> CHR ''+''"
  by (intro conjI notI) (auto simp: is_digit_def isSpace_def)

lemma scan_digit:
  assumes "is_digit d"
  shows "scan_step d (BeginValue, st) = Some (InNumber (if d = CHR ''0'' then Int0 else Int1) [d], st)"
    and "scan_step d (InNumber Neg ''-'', st) = Some (InNumber (if d = CHR ''0'' then Int0 else Int1) [d, CHR ''-''], st)"
  using assms is_digit_neq [OF assms] by (simp_all add: scan_step_def begin_value_def number_step_def Let_def)

lemma scan_decimal:
  assumes "delimiter c"
  shows "scan_run (decimal n @ c # r) (BeginValue, st) = scan_run (c # r) (end_value (JNumber (decimal n)) st)"
    and "scan_run (decimal n @ c # r) (InNumber Neg ''-'', st) =
      scan_run (c # r) (end_value (JNumber (CHR ''-'' # decimal n)) st)"
proof -
  obtain d ds where n: "decimal n = d # ds" using decimal_digits(2) by (cases "decimal n") auto
  then have d: "is_digit d" "\<forall>c \<in> set ds. is_digit c" using decimal_digits(1) [of n] by simp_all
  note start = scan_go [OF scan_digit(1) [OF d(1), of st]] scan_go [OF scan_digit(2) [OF d(1), of st]]
  have zero: "ds = []" if "d = CHR ''0''"
  proof -
    have "n = 0" using decimal_head [of n] n that by (cases "n = 0") auto
    with n show ?thesis by (simp add: decimal.simps)
  qed
  show "scan_run (decimal n @ c # r) (BeginValue, st) = scan_run (c # r) (end_value (JNumber (decimal n)) st)"
  proof (cases "d = CHR ''0''")
    case True
    with zero start n scan_zero [OF assms, of r "[d]" st] show ?thesis by (simp del: scan_run.simps(2))
  next
    case False
    with start n scan_digits [OF d(2) assms, of r "[d]" st] show ?thesis by (simp del: scan_run.simps(2))
  qed
  show "scan_run (decimal n @ c # r) (InNumber Neg ''-'', st) =
      scan_run (c # r) (end_value (JNumber (CHR ''-'' # decimal n)) st)"
  proof (cases "d = CHR ''0''")
    case True
    with zero start n scan_zero [OF assms, of r "[d, CHR ''-'']" st] show ?thesis by (simp del: scan_run.simps(2))
  next
    case False
    with start n scan_digits [OF d(2) assms, of r "[d, CHR ''-'']" st] show ?thesis by (simp del: scan_run.simps(2))
  qed
qed

lemma scan_int:
  assumes "delimiter c"
  shows "scan_run (int_text n @ c # r) (BeginValue, st) = scan_run (c # r) (end_value (JNumber (int_text n)) st)"
proof -
  have "scan_step CHR ''-'' (BeginValue, st) = Some (InNumber Neg ''-'', st)"
    by (simp add: scan_step_def begin_value_def isSpace_def)
  with scan_decimal [OF assms] show ?thesis
    by (auto simp: int_text_def simp del: scan_run.simps(2) simp add: scan_run.simps(2) [of "CHR ''-''"])
qed

lemma digits_value_decimal: "digits_value acc (decimal n) = Some (acc * 10 ^ length (decimal n) + int n)"
proof (induction n arbitrary: acc rule: decimal.induct)
  case (1 n)
  have digit: "digit_value (digit_char m) = Some (int m)" if "m < 10" for m
    using that by (simp add: digit_value_def digit_char_def)
  have app: "digits_value a (xs @ ys) = Option.bind (digits_value a xs) (\<lambda>b. digits_value b ys)" for a xs ys
    by (induction xs arbitrary: a) (auto split: option.splits)
  show ?case
  proof (cases "n < 10")
    case True
    then show ?thesis by (subst (1 2) decimal.simps) (simp add: digit)
  next
    case False
    have "int n = 10 * int (n div 10) + int (n mod 10)" by presburger
    with False "1.IH" show ?thesis
      by (subst (1 2) decimal.simps) (simp add: app digit algebra_simps)
  qed
qed

lemma Atoi_int_text:
  assumes "- (2 ^ 63) \<le> n" and "n < 2 ^ 63"
  shows "Atoi (int_text n) = Ok n"
proof (cases "n < 0")
  case True
  with assms digits_value_decimal [of 0 "nat (- n)"] decimal_digits(2) [of "nat (- n)"] show ?thesis
    by (simp add: Atoi_def int_text_def)
next
  case False
  obtain d ds where n: "decimal (nat n) = d # ds" using decimal_digits(2) by (cases "decimal (nat n)") auto
  with decimal_digits(1) [of "nat n"] have "is_digit d" by simp
  then have "d \<noteq> CHR ''-''" "d \<noteq> CHR ''+''" by (auto simp: is_digit_def)
  with False n assms digits_value_decimal [of 0 "nat n"] show ?thesis
    by (simp add: Atoi_def int_text_def del: digits_value.simps)
qed

subsection \<open>Values\<close>

lemma int_text_head: "\<exists>d ds. int_text n = d # ds \<and> (is_digit d \<or> d = CHR ''-'')"
proof -
  have "\<exists>d ds. decimal m = d # ds \<and> is_digit d" for m
    using decimal_digits [of m] by (cases "decimal m") auto
  then obtain d ds where "decimal (nat n) = d # ds" "is_digit d" by blast
  then show ?thesis by (simp add: int_text_def)
qed

lemma json_text_head:
  assumes "plain_json v"
  shows "\<not> isSpace (hd (json_text v)) \<and> hd (json_text v) \<noteq> CHR '']'' \<and> json_text v \<noteq> []"
proof (cases v)
  case (JNumber t)
  with assms obtain n where t: "t = int_text n" by auto
  obtain d ds where d: "int_text n = d # ds" "is_digit d \<or> d = CHR ''-''" using int_text_head by blast
  have "\<not> isSpace CHR ''-''" by (simp add: isSpace_def)
  with d(2) is_digit_neq [of d] have "\<not> isSpace d" "d \<noteq> CHR '']''" by auto
  then show ?thesis by (simp add: JNumber t d(1))
qed (simp_all add: isSpace_def json_string_def)

lemma begin_or_empty:
  assumes "plain_json v"
  shows "scan_run (json_text v @ r) (BeginValueOrEmpty, st) = scan_run (json_text v @ r) (BeginValue, st)"
proof -
  obtain c cs where c: "json_text v = c # cs" using json_text_head [OF assms] by (cases "json_text v") auto
  with json_text_head [OF assms] have "\<not> isSpace c" "c \<noteq> CHR '']''" by simp_all
  with c show ?thesis by (simp add: scan_step_def)
qed

text \<open>\<open>scans v\<close>: wherever a value may stand, with room on the stack, its text is read back as the value.\<close>

definition value_place :: "frame list \<Rightarrow> bool" where
  "value_place st \<longleftrightarrow> (case st of InObject _ # _ \<Rightarrow> False | _ \<Rightarrow> True)"

definition scans :: "json \<Rightarrow> bool" where
  "scans v \<longleftrightarrow> (\<forall>st c r. value_place st \<longrightarrow> length st + depth v \<le> maxNestingDepth \<longrightarrow> delimiter c \<longrightarrow>
     scan_run (json_text v @ c # r) (BeginValue, st) = scan_run (c # r) (end_value v st))"

lemma scansD:
  "scans v \<Longrightarrow> value_place st \<Longrightarrow> length st + depth v \<le> maxNestingDepth \<Longrightarrow> delimiter c \<Longrightarrow>
   scan_run (json_text v @ c # r) (BeginValue, st) = scan_run (c # r) (end_value v st)"
  by (auto simp: scans_def)

lemma scan_elems:
  assumes "\<forall>v \<in> set (v # vs). scans v \<and> Suc (length st) + depth v \<le> maxNestingDepth"
  shows "scan_run (commas (map json_text (v # vs)) @ CHR '']'' # r) (BeginValue, InArray acc # st) =
    scan_run r (end_value (JArray (rev acc @ v # vs)) st)"
  using assms
proof (induction vs arbitrary: v acc)
  case Nil
  with scansD [of v "InArray acc # st" "CHR '']''" r] show ?case
    by (simp add: value_place_def delimiter_def scan_step_def after_value_def isSpace_def end_array_def)
next
  case (Cons w vs)
  have "scan_run (json_text v @ CHR '','' # commas (map json_text (w # vs)) @ CHR '']'' # r) (BeginValue, InArray acc # st) =
      scan_run (commas (map json_text (w # vs)) @ CHR '']'' # r) (BeginValue, InArray (v # acc) # st)"
    using scansD [of v "InArray acc # st" "CHR '',''"] Cons.prems
    by (simp add: value_place_def delimiter_def scan_step_def after_value_def isSpace_def)
  with Cons.IH [of w "v # acc"] Cons.prems show ?case by simp
qed

lemma scan_members:
  assumes "\<forall>(k, v) \<in> set (m # ms). printable k \<and> scans v \<and> Suc (length st) + depth v \<le> maxNestingDepth"
    and "step = BeginString \<or> step = BeginStringOrEmpty"
  shows "scan_run (commas (map (\<lambda>(k, v). json_string k @ CHR '':'' # json_text v) (m # ms)) @ CHR ''}'' # r)
      (step, InObject acc # st) = scan_run r (end_value (JObject (rev acc @ m # ms)) st)"
  using assms
proof (induction ms arbitrary: m acc step)
  case Nil
  obtain k v where m: "m = (k, v)" by (cases m)
  have "scan_run (json_string k @ CHR '':'' # json_text v @ CHR ''}'' # r) (step, InObject acc # st) =
      scan_run (json_text v @ CHR ''}'' # r) (BeginValue, InMember acc k # st)"
    using Nil scan_string [of k step] by (auto simp: m scan_step_def isSpace_def)
  also have "\<dots> = scan_run r (end_value (JObject (rev acc @ [m])) st)"
    using scansD [of v "InMember acc k # st" "CHR ''}''"] Nil
    by (simp add: m value_place_def delimiter_def scan_step_def after_value_def isSpace_def end_object_def)
  finally show ?case by (simp add: m)
next
  case (Cons m' ms)
  obtain k v where m: "m = (k, v)" by (cases m)
  let ?rest = "commas (map (\<lambda>(k, v). json_string k @ CHR '':'' # json_text v) (m' # ms)) @ CHR ''}'' # r"
  have "scan_run (json_string k @ CHR '':'' # json_text v @ CHR '','' # ?rest) (step, InObject acc # st) =
      scan_run (json_text v @ CHR '','' # ?rest) (BeginValue, InMember acc k # st)"
    using Cons.prems scan_string [of k step] by (auto simp: m scan_step_def isSpace_def)
  also have "\<dots> = scan_run ?rest (BeginString, InObject (m # acc) # st)"
    using scansD [of v "InMember acc k # st" "CHR '',''"] Cons.prems
    by (simp add: m value_place_def delimiter_def scan_step_def after_value_def isSpace_def)
  also have "\<dots> = scan_run r (end_value (JObject (rev (m # acc) @ m' # ms)) st)"
    using Cons.IH [of m' BeginString "m # acc"] Cons.prems(1) by simp
  finally show ?case by (simp add: m)
qed

lemma depth_elem: "v \<in> set vs \<Longrightarrow> depth v < depth (JArray vs)"
  by (simp add: less_Suc_eq_le)

lemma depth_member: "(k, v) \<in> set ms \<Longrightarrow> depth v < depth (JObject ms)"
proof -
  assume "(k, v) \<in> set ms"
  then have "depth v \<in> insert 0 ((\<lambda>(k, v). depth v) ` set ms)" by (force simp: image_iff)
  then have "depth v \<le> Max (insert 0 ((\<lambda>(k, v). depth v) ` set ms))" by (intro Max_ge) simp_all
  then show ?thesis by simp
qed

lemma scan_open:
  assumes "Suc (length st) \<le> maxNestingDepth"
  shows "scan_step CHR ''['' (BeginValue, st) = Some (BeginValueOrEmpty, InArray [] # st)"
    and "scan_step CHR ''{'' (BeginValue, st) = Some (BeginStringOrEmpty, InObject [] # st)"
  using assms by (simp_all add: scan_step_def begin_value_def pushParseState_def isSpace_def)

lemma scans_array:
  assumes "\<And>v. v \<in> set vs \<Longrightarrow> plain_json v \<and> scans v"
  shows "scans (JArray vs)"
proof (unfold scans_def, intro allI impI)
  fix st :: "frame list" and c r
  assume room: "length st + depth (JArray vs) \<le> maxNestingDepth" and "delimiter c"
  then have push: "Suc (length st) \<le> maxNestingDepth" by simp
  show "scan_run (json_text (JArray vs) @ c # r) (BeginValue, st) = scan_run (c # r) (end_value (JArray vs) st)"
  proof (cases vs)
    case Nil
    then show ?thesis
      using scan_go [OF scan_open(1) [OF push]]
      by (simp del: scan_run.simps(2)) (simp add: scan_step_def isSpace_def end_array_def)
  next
    case (Cons v vs')
    have "\<forall>v \<in> set (v # vs'). scans v \<and> Suc (length st) + depth v \<le> maxNestingDepth"
      using assms depth_elem [of _ vs] room Cons by fastforce
    note elems = scan_elems [OF this, of "c # r" "[]"]
    obtain rest where rest: "commas (map json_text (v # vs')) = json_text v @ rest" by (cases vs') auto
    have "scan_run (json_text (JArray vs) @ c # r) (BeginValue, st) =
        scan_run (json_text v @ rest @ CHR '']'' # c # r) (BeginValueOrEmpty, InArray [] # st)"
      using scan_go [OF scan_open(1) [OF push]] rest by (simp add: Cons del: scan_run.simps(2) commas.simps list.map)
    also have "\<dots> = scan_run (commas (map json_text (v # vs')) @ CHR '']'' # c # r) (BeginValue, InArray [] # st)"
      using begin_or_empty [of v] assms [of v] Cons rest by simp
    finally show ?thesis using elems Cons by simp
  qed
qed

lemma scans_object:
  assumes "\<And>k v. (k, v) \<in> set ms \<Longrightarrow> printable k \<and> scans v"
  shows "scans (JObject ms)"
proof (unfold scans_def, intro allI impI)
  fix st :: "frame list" and c r
  assume room: "length st + depth (JObject ms) \<le> maxNestingDepth" and "delimiter c"
  then have push: "Suc (length st) \<le> maxNestingDepth" by simp
  show "scan_run (json_text (JObject ms) @ c # r) (BeginValue, st) = scan_run (c # r) (end_value (JObject ms) st)"
  proof (cases ms)
    case Nil
    then show ?thesis
      using scan_go [OF scan_open(2) [OF push]]
      by (simp del: scan_run.simps(2)) (simp add: scan_step_def isSpace_def end_object_def)
  next
    case (Cons m ms')
    have "\<forall>(k, v) \<in> set (m # ms'). printable k \<and> scans v \<and> Suc (length st) + depth v \<le> maxNestingDepth"
      using assms depth_member [of _ _ ms] room Cons by fastforce
    from scan_members [OF this, of BeginStringOrEmpty "c # r" "[]"] scan_go [OF scan_open(2) [OF push]]
    show ?thesis by (simp add: Cons del: scan_run.simps(2) commas.simps list.map)
  qed
qed

lemma scans_word: "scans JNull" "scans (JBool b)"
  by (simp_all add: scans_def scan_step_def [of _ "(BeginValue, _)"] begin_value_def isSpace_def
      scan_step_def [of _ "(InLiteral _ _, _)"])

lemma plain_scans: "plain_json v \<Longrightarrow> scans v"
proof (induction v)
  case (JNumber t)
  then obtain n where "t = int_text n" by auto
  then show ?case using scan_int by (simp add: scans_def)
next
  case (JString s)
  have "end_string s st = end_value (JString s) st" if "value_place st" for st
    using that by (cases "(s, st)" rule: end_string.cases) (simp_all add: value_place_def)
  with JString scan_string [of s BeginValue] show ?case by (simp add: scans_def)
next
  case (JArray vs)
  then show ?case by (intro scans_array) simp
next
  case (JObject ms)
  have "printable k \<and> scans v" if "(k, v) \<in> set ms" for k v
    using that JObject.IH [of "(k, v)" v] JObject.prems by auto
  then show ?case by (rule scans_object)
qed (rule scans_word)+

lemma json_scan_text:
  assumes "plain_json v" and "depth v \<le> maxNestingDepth"
  shows "json_scan (json_text v) = Ok v"
  using scansD [OF plain_scans [OF assms(1)], of "[]" "CHR '' ''" "[]"] assms(2)
  by (simp add: json_scan_def value_place_def delimiter_def scan_step_def after_value_def isSpace_def)

subsection \<open>The round trip\<close>

definition config_json :: "Config \<Rightarrow> json" where
  "config_json c = JObject
     [(''Interfaces'', JArray (map JString (Interfaces c))), (''BindAddress'', JString (BindAddress c)),
      (''DatabasePath'', JString (DatabasePath c)), (''FlushInterval'', JNumber (int_text (FlushInterval c))),
      (''HousekeepingInterval'', JNumber (int_text (HousekeepingInterval c))), (''LogLevel'', JString (LogLevel c)),
      (''AllowPartial'', JBool (AllowPartial c))]"

lemma match_field_names:
  "match_field ''Interfaces'' = Some FInterfaces" "match_field ''BindAddress'' = Some FBindAddress"
  "match_field ''DatabasePath'' = Some FDatabasePath" "match_field ''FlushInterval'' = Some FFlushInterval"
  "match_field ''HousekeepingInterval'' = Some FHousekeepingInterval" "match_field ''LogLevel'' = Some FLogLevel"
  "match_field ''AllowPartial'' = Some FAllowPartial"
  by code_simp+

lemma set_elems_strings: "set_elems (map JString xs) array = Some xs"
  by (induction xs arbitrary: array) simp_all

lemma depth_config: "depth (config_json c) \<le> 2"
proof -
  have "insert 0 (depth ` JString ` set (Interfaces c)) = {0}" by auto
  then have "Max (insert 0 (depth ` JString ` set (Interfaces c))) = 0" by (simp only: Max_singleton)
  then show ?thesis by (simp add: config_json_def)
qed

text \<open>C21. A configuration file can express every configuration whose strings are printable ASCII: writing it
  as a JSON object with the field names as keys and parsing that file gives the same configuration
  back.\<close>

theorem Parse_round_trip:
  assumes "\<forall>i \<in> set (Interfaces c). printable i" and "printable (BindAddress c)" and "printable (DatabasePath c)"
    and "printable (LogLevel c)" and "- (2 ^ 63) \<le> FlushInterval c" and "FlushInterval c < 2 ^ 63"
    and "- (2 ^ 63) \<le> HousekeepingInterval c" and "HousekeepingInterval c < 2 ^ 63"
  shows "Parse (json_text (config_json c)) = Ok c"
proof -
  have "plain_json (config_json c)" using assms(1-4) by (auto simp: config_json_def printable_def)
  moreover have "depth (config_json c) \<le> maxNestingDepth" using depth_config [of c] by (simp add: maxNestingDepth_def)
  ultimately have "json_scan (json_text (config_json c)) = Ok (config_json c)" by (rule json_scan_text)
  moreover have "\<exists>spare. set_members (case config_json c of JObject ms \<Rightarrow> ms) (New_config, []) = Some (c, spare)"
    using assms(5-8)
    by (simp add: config_json_def match_field_names set_field_def set_elems_strings Atoi_int_text New_config_def Let_def)
  ultimately show ?thesis by (auto simp: Parse_def Unmarshal_def config_json_def)
qed

theorem Parse_round_trip_witness:
  "Parse (json_text (config_json (New_config\<lparr>Interfaces := [''eth0'', ''say \"hi\"''], FlushInterval := - 5\<rparr>))) =
     Ok (New_config\<lparr>Interfaces := [''eth0'', ''say \"hi\"''], FlushInterval := - 5\<rparr>)"
  by (rule Parse_round_trip) (simp_all add: New_config_def printable_def)

end
