(* ===== verification/Storage.thy ===== *)
theory Storage
  imports Prelude
begin

text \<open>
  The SQLite repository of \<open>internal/storage/storage.go\<close>. The database file is a record of its
  tables; every method of \<open>Repository\<close> is a function from the file to its result and the file
  after it, with each SQL statement of the source written out over the tables. The driver's failures
  (a locked database, a full disk, a cancelled context) are the argument \<open>io\<close>: for every call the
  method makes it says whether that call fails and with which error.
\<close>

section \<open>Data\<close>

datatype mac = Mac byte byte byte byte byte byte

fun mac_bytes :: "mac \<Rightarrow> byte list" where
  "mac_bytes (Mac a b c d e f) = [a, b, c, d, e, f]"

text \<open>\<open>copy(dst.MAC[:], blob)\<close> into a zeroed array: at most six bytes, the rest stays zero.\<close>

definition copy_mac :: "byte list \<Rightarrow> mac" where
  "copy_mac blob =
     (case blob @ replicate 6 0 of
        a # b # c # d # e # f # _ \<Rightarrow> Mac a b c d e f
      | _ \<Rightarrow> Mac 0 0 0 0 0 0)"

record RecordKey =
  InterfaceName :: string
  Ifindex :: uint32
  MAC :: mac

type_synonym TrafficCounters = "uint64 counters"

record DailyRecord =
  daily_key :: RecordKey
  daily_DateUTC :: string
  daily_counters :: TrafficCounters

record TotalRecord =
  total_key :: RecordKey
  total_counters :: TrafficCounters

text \<open>
  The counters of a checkpoint are the struct's \<open>LastRawBytes\<close>, \<open>LastRawPackets\<close>,
  \<open>LastIngressBytes\<close>, \<open>LastIngressPackets\<close>, \<open>LastEgressBytes\<close>, \<open>LastEgressPackets\<close>, in
  this order.
\<close>

record Checkpoint =
  cp_key :: RecordKey
  cp_DateUTC :: string
  cp_last :: TrafficCounters

section \<open>SQL values, binding and scanning\<close>

text \<open>
  A value of an INTEGER column: a signed 64-bit integer, or, after an addition that leaves that
  range, a REAL (SQLite's documented result of an integer overflow). The value of a REAL is not
  kept: it is at least $2^{63}$ here and no statement of the program can read it back into a
  \<open>uint64\<close>.
\<close>

datatype sqlval = SqlInt int | SqlReal

definition int64_range :: "int \<Rightarrow> bool" where
  "int64_range i \<longleftrightarrow> - (2 ^ 63) \<le> i \<and> i < 2 ^ 63"

fun sql_add :: "sqlval \<Rightarrow> sqlval \<Rightarrow> sqlval" where
  "sql_add (SqlInt a) (SqlInt b) = (if int64_range (a + b) then SqlInt (a + b) else SqlReal)"
| "sql_add _ _ = SqlReal"

text \<open>
  \<open>database/sql\<close> converts each argument before the statement runs: a \<open>uint64\<close> with its high bit
  set is refused. Arguments are converted in order, so the first such counter gives the error;
  \<open>n\<close> is the ordinal of the first counter in the statement.
\<close>

fun bind_uint64s :: "nat \<Rightarrow> uint64 list \<Rightarrow> unit result" where
  "bind_uint64s n [] = Ok ()"
| "bind_uint64s n (w # ws) =
     (if 2 ^ 63 \<le> uint w
      then Fail (Errorf ''sql: converting argument $%d type: uint64 values with high bit set are not supported''
                   [AInt (int n)])
      else bind_uint64s (Suc n) ws)"

definition bind_counters :: "nat \<Rightarrow> TrafficCounters \<Rightarrow> sqlval counters result" where
  "bind_counters n c =
     bind_result (bind_uint64s n (counters_list c))
       (\<lambda>_. Ok (map_counters (\<lambda>w. SqlInt (uint w)) c))"

text \<open>\<open>Rows.Scan\<close> into a \<open>uint64\<close> parses the column's text: a negative or a REAL value fails.\<close>

fun scan_uint64 :: "sqlval \<Rightarrow> uint64 result" where
  "scan_uint64 (SqlInt i) =
     (if 0 \<le> i \<and> i < 2 ^ 64 then Ok (of_int i)
      else Fail (ExtErr ''converting driver.Value type int64 to a uint64: invalid syntax''))"
| "scan_uint64 SqlReal =
     Fail (ExtErr ''converting driver.Value type float64 to a uint64: invalid syntax'')"

definition scan_uint32 :: "int \<Rightarrow> uint32 result" where
  "scan_uint32 i =
     (if 0 \<le> i \<and> i < 2 ^ 32 then Ok (of_int i)
      else Fail (ExtErr ''converting driver.Value type int64 to a uint32: value out of range''))"

fun scan_counters :: "sqlval counters \<Rightarrow> TrafficCounters result" where
  "scan_counters (Counters a b c d e f) =
     bind_result (scan_uint64 a) (\<lambda>a'. bind_result (scan_uint64 b) (\<lambda>b'.
     bind_result (scan_uint64 c) (\<lambda>c'. bind_result (scan_uint64 d) (\<lambda>d'.
     bind_result (scan_uint64 e) (\<lambda>e'. bind_result (scan_uint64 f) (\<lambda>f'.
       Ok (Counters a' b' c' d' e' f')))))))"

section \<open>The database file\<close>

text \<open>
  The primary-key columns \<open>(interface_name, ifindex, mac)\<close> as SQLite stores them; their
  lexicographic order is the ORDER BY of the queries (BINARY collation for TEXT, \<open>memcmp\<close> for BLOB).
  The column \<open>updated_at\<close> is left out: every statement writes the clock to it and none reads it.
\<close>

type_synonym pk = "string \<times> int \<times> byte list"

definition key_cols :: "RecordKey \<Rightarrow> pk" where
  "key_cols k = (InterfaceName k, uint (Ifindex k), mac_bytes (MAC k))"

record database =
  tables :: "string list"
  indexes :: "string list"
  totals :: "(pk, sqlval counters) table"
  daily :: "(pk \<times> string, sqlval counters) table"
  checkpoints :: "(pk, string \<times> sqlval counters) table"

definition empty_file :: database where
  "empty_file = \<lparr>tables = [], indexes = [], totals = [], daily = [], checkpoints = []\<rparr>"

datatype db_call =
    OpenDB | Pragma | BeginTx | Exec nat | CommitTx | Query | RowsNext nat | RowsAffected

type_synonym db_io = "db_call \<Rightarrow> err option"

definition no_faults :: db_io where
  "no_faults = (\<lambda>_. None)"

definition guard_io :: "err option \<Rightarrow> unit result" where
  "guard_io r = (case r of Some e \<Rightarrow> Fail e | None \<Rightarrow> Ok ())"

definition require_table :: "string \<Rightarrow> database \<Rightarrow> unit result" where
  "require_table name db =
     (if name \<in> set (tables db) then Ok ()
      else Fail (Errorf ''no such table: %s'' [AStr name]))"

section \<open>The statements\<close>

text \<open>
  Each statement first converts its arguments, then may be refused by the driver or for a missing
  table, then acts on the tables.
\<close>

definition run_stmt :: "db_io \<Rightarrow> nat \<Rightarrow> string \<Rightarrow> 'a result \<Rightarrow> database \<Rightarrow> ('a \<Rightarrow> database) \<Rightarrow> database result" where
  "run_stmt io n name args db act =
     bind_result args (\<lambda>vals.
     bind_result (guard_io (io (Exec n))) (\<lambda>_.
     bind_result (require_table name db) (\<lambda>_. Ok (act vals))))"

definition exec_upsert_daily ::
  "db_io \<Rightarrow> nat \<Rightarrow> RecordKey \<Rightarrow> string \<Rightarrow> TrafficCounters \<Rightarrow> database \<Rightarrow> database result" where
  "exec_upsert_daily io n key dateUTC delta db =
     run_stmt io n ''mac_traffic_daily'' (bind_counters 5 delta) db
       (\<lambda>vals. db\<lparr>daily := upsert_row (key_cols key, dateUTC) vals
                  (\<lambda>row. map2_counters sql_add row vals) (daily db)\<rparr>)"

definition exec_upsert_total ::
  "db_io \<Rightarrow> nat \<Rightarrow> RecordKey \<Rightarrow> TrafficCounters \<Rightarrow> database \<Rightarrow> database result" where
  "exec_upsert_total io n key delta db =
     run_stmt io n ''mac_traffic_totals'' (bind_counters 4 delta) db
       (\<lambda>vals. db\<lparr>totals := upsert_row (key_cols key) vals
                  (\<lambda>row. map2_counters sql_add row vals) (totals db)\<rparr>)"

definition exec_upsert_checkpoint ::
  "db_io \<Rightarrow> nat \<Rightarrow> RecordKey \<Rightarrow> string \<Rightarrow> TrafficCounters \<Rightarrow> database \<Rightarrow> database result" where
  "exec_upsert_checkpoint io n key dateUTC raw db =
     run_stmt io n ''collector_checkpoints'' (bind_counters 5 raw) db
       (\<lambda>vals. db\<lparr>checkpoints := upsert_row (key_cols key) (dateUTC, vals)
                  (\<lambda>_. (dateUTC, vals)) (checkpoints db)\<rparr>)"

text \<open>
  \<open>BeginTx\<close>, a body, \<open>Commit\<close>, with the deferred \<open>Rollback\<close>: a transaction that is not committed
  leaves the file as it was. \<open>wb\<close> and \<open>wc\<close> wrap a failure to begin and to commit.
\<close>

definition in_tx ::
  "db_io \<Rightarrow> string \<Rightarrow> string \<Rightarrow> (database \<Rightarrow> database result) \<Rightarrow> database \<Rightarrow> unit result \<times> database" where
  "in_tx io wb wc body db =
     (case io BeginTx of
        Some e \<Rightarrow> (Fail (wrap_err wb e), db)
      | None \<Rightarrow>
          (case body db of
             Inl e \<Rightarrow> (Fail e, db)
           | Inr db' \<Rightarrow>
               (case io CommitTx of
                  Some e \<Rightarrow> (Fail (wrap_err wc e), db)
                | None \<Rightarrow> (Ok (), db'))))"

definition wrap_fail :: "string \<Rightarrow> 'a result \<Rightarrow> 'a result" where
  "wrap_fail msg r = (case r of Inl e \<Rightarrow> Fail (wrap_err msg e) | Inr a \<Rightarrow> Ok a)"

section \<open>Opening the database\<close>

definition create_table :: "db_io \<Rightarrow> nat \<Rightarrow> string \<Rightarrow> database \<Rightarrow> database result" where
  "create_table io n name db =
     wrap_fail (''creating '' @ name @ '': %w'')
       (bind_result (guard_io (io (Exec n)))
         (\<lambda>_. Ok (if name \<in> set (tables db) then db else db\<lparr>tables := tables db @ [name]\<rparr>)))"

definition create_index :: "db_io \<Rightarrow> nat \<Rightarrow> string \<Rightarrow> database \<Rightarrow> database result" where
  "create_index io n name db =
     wrap_fail (''creating '' @ name @ '': %w'')
       (bind_result (guard_io (io (Exec n)))
         (\<lambda>_. Ok (if name \<in> set (indexes db) then db else db\<lparr>indexes := indexes db @ [name]\<rparr>)))"

definition initSchema :: "db_io \<Rightarrow> database \<Rightarrow> unit result \<times> database" where
  "initSchema io =
     in_tx io ''beginning transaction: %w'' ''committing schema: %w''
       (\<lambda>db. bind_result (create_table io 1 ''mac_traffic_totals'' db)
       (\<lambda>db. bind_result (create_table io 2 ''mac_traffic_daily'' db)
       (\<lambda>db. bind_result (create_table io 3 ''collector_checkpoints'' db)
       (\<lambda>db. bind_result (create_index io 4 ''idx_daily_date_utc'' db)
       (\<lambda>db. bind_result (create_index io 5 ''idx_totals_interface'' db)
       (\<lambda>db. bind_result (create_index io 6 ''idx_daily_interface'' db)
       (\<lambda>db. create_index io 7 ''idx_checkpoints_interface'' db)))))))"

text \<open>\<open>New\<close>: open, enable foreign keys, create the schema; on success the file is the repository.\<close>

definition New :: "db_io \<Rightarrow> database \<Rightarrow> unit result \<times> database" where
  "New io file =
     (case io OpenDB of
        Some e \<Rightarrow> (Fail (wrap_err ''opening database: %w'' e), file)
      | None \<Rightarrow>
          (case io Pragma of
             Some e \<Rightarrow> (Fail (wrap_err ''enabling foreign keys: %w'' e), file)
           | None \<Rightarrow>
               (case initSchema io file of
                  (Inl e, file') \<Rightarrow> (Fail (wrap_err ''initializing schema: %w'' e), file')
                | (Inr _, file') \<Rightarrow> (Ok (), file'))))"

section \<open>Writing\<close>

definition UpsertDaily ::
  "db_io \<Rightarrow> RecordKey \<Rightarrow> string \<Rightarrow> TrafficCounters \<Rightarrow> database \<Rightarrow> unit result \<times> database" where
  "UpsertDaily io key dateUTC delta =
     in_tx io ''beginning transaction: %w'' ''committing daily upsert: %w''
       (\<lambda>db. wrap_fail ''upserting daily record: %w'' (exec_upsert_daily io 1 key dateUTC delta db))"

definition UpsertTotal ::
  "db_io \<Rightarrow> RecordKey \<Rightarrow> TrafficCounters \<Rightarrow> database \<Rightarrow> unit result \<times> database" where
  "UpsertTotal io key delta =
     in_tx io ''beginning transaction: %w'' ''committing total upsert: %w''
       (\<lambda>db. wrap_fail ''upserting total record: %w'' (exec_upsert_total io 1 key delta db))"

definition UpsertCheckpoint ::
  "db_io \<Rightarrow> RecordKey \<Rightarrow> string \<Rightarrow> TrafficCounters \<Rightarrow> database \<Rightarrow> unit result \<times> database" where
  "UpsertCheckpoint io key dateUTC raw =
     in_tx io ''beginning transaction: %w'' ''committing checkpoint: %w''
       (\<lambda>db. wrap_fail ''upserting checkpoint: %w'' (exec_upsert_checkpoint io 1 key dateUTC raw db))"

text \<open>
  \<open>DELETE FROM mac_traffic_daily WHERE date_utc < ?\<close>, in SQLite's own implicit transaction. The
  dates are compared as TEXT. A failure to read the number of affected rows is reported after the
  rows are gone.
\<close>

definition PruneDaily :: "db_io \<Rightarrow> string \<Rightarrow> database \<Rightarrow> int result \<times> database" where
  "PruneDaily io cutoffDateUTC db =
     (case bind_result (guard_io (io (Exec 1))) (\<lambda>_. require_table ''mac_traffic_daily'' db) of
        Inl e \<Rightarrow> (Fail (wrap_err ''pruning daily records: %w'' e), db)
      | Inr _ \<Rightarrow>
          (let kept = filter (\<lambda>((k, d), row). \<not> d < cutoffDateUTC) (daily db);
               db' = db\<lparr>daily := kept\<rparr>
           in case io RowsAffected of
                Some e \<Rightarrow> (Fail (wrap_err ''getting rows affected: %w'' e), db')
              | None \<Rightarrow> (Ok (int (length (daily db)) - int (length kept)), db')))"

section \<open>Reading one row\<close>

definition scan_key :: "pk \<Rightarrow> RecordKey result" where
  "scan_key k =
     (case k of (name, idx, blob) \<Rightarrow>
        bind_result (scan_uint32 idx)
          (\<lambda>i. Ok \<lparr>InterfaceName = name, Ifindex = i, MAC = copy_mac blob\<rparr>))"

definition scan_checkpoint :: "pk \<times> string \<times> sqlval counters \<Rightarrow> Checkpoint result" where
  "scan_checkpoint row =
     (case row of (k, d, cells) \<Rightarrow>
        bind_result (scan_key k) (\<lambda>key. bind_result (scan_counters cells)
          (\<lambda>c. Ok \<lparr>cp_key = key, cp_DateUTC = d, cp_last = c\<rparr>)))"

definition scan_daily :: "(pk \<times> string) \<times> sqlval counters \<Rightarrow> DailyRecord result" where
  "scan_daily row =
     (case row of ((k, d), cells) \<Rightarrow>
        bind_result (scan_key k) (\<lambda>key. bind_result (scan_counters cells)
          (\<lambda>c. Ok \<lparr>daily_key = key, daily_DateUTC = d, daily_counters = c\<rparr>)))"

definition scan_total :: "pk \<times> sqlval counters \<Rightarrow> TotalRecord result" where
  "scan_total row =
     (case row of (k, cells) \<Rightarrow>
        bind_result (scan_key k) (\<lambda>key. bind_result (scan_counters cells)
          (\<lambda>c. Ok \<lparr>total_key = key, total_counters = c\<rparr>)))"

text \<open>\<open>QueryRowContext(...).Scan(...)\<close> on a primary key: \<open>sql.ErrNoRows\<close> is the result \<open>None\<close>.\<close>

definition query_row ::
  "db_io \<Rightarrow> string \<Rightarrow> string \<Rightarrow> database \<Rightarrow> 'r option \<Rightarrow> ('r \<Rightarrow> 'a result) \<Rightarrow> 'a option result" where
  "query_row io msg name db row scan =
     wrap_fail msg
       (bind_result (guard_io (io Query)) (\<lambda>_.
        bind_result (require_table name db) (\<lambda>_.
          case row of
            None \<Rightarrow> Ok None
          | Some r \<Rightarrow> bind_result (scan r) (\<lambda>a. Ok (Some a)))))"

definition GetCheckpoint :: "db_io \<Rightarrow> RecordKey \<Rightarrow> database \<Rightarrow> Checkpoint option result" where
  "GetCheckpoint io key db =
     query_row io ''querying checkpoint: %w'' ''collector_checkpoints'' db
       (map_option (Pair (key_cols key)) (map_of (checkpoints db) (key_cols key))) scan_checkpoint"

definition GetDaily :: "db_io \<Rightarrow> RecordKey \<Rightarrow> string \<Rightarrow> database \<Rightarrow> DailyRecord option result" where
  "GetDaily io key dateUTC db =
     query_row io ''querying daily record: %w'' ''mac_traffic_daily'' db
       (map_option (Pair (key_cols key, dateUTC)) (map_of (daily db) (key_cols key, dateUTC))) scan_daily"

definition GetTotal :: "db_io \<Rightarrow> RecordKey \<Rightarrow> database \<Rightarrow> TotalRecord option result" where
  "GetTotal io key db =
     query_row io ''querying total record: %w'' ''mac_traffic_totals'' db
       (map_option (Pair (key_cols key)) (map_of (totals db) (key_cols key))) scan_total"

section \<open>Listing\<close>

text \<open>
  The loop \<open>for rows.Next() { rows.Scan(...); records = append(...) }\<close> and the check of
  \<open>rows.Err()\<close> after it. \<open>RowsNext n\<close> is the driver's step to row \<open>n\<close>: when it fails, the
  loop ends and the error is reported as an iteration error.
\<close>

fun scan_rows ::
  "db_io \<Rightarrow> string \<Rightarrow> string \<Rightarrow> ('r \<Rightarrow> 'a result) \<Rightarrow> nat \<Rightarrow> 'r list \<Rightarrow> 'a list result" where
  "scan_rows io scanMsg iterMsg scan n rows =
     (case io (RowsNext n) of
        Some e \<Rightarrow> Fail (wrap_err iterMsg e)
      | None \<Rightarrow>
          (case rows of
             [] \<Rightarrow> Ok []
           | r # rs \<Rightarrow>
               bind_result (wrap_fail scanMsg (scan r)) (\<lambda>a.
               bind_result (scan_rows io scanMsg iterMsg scan (Suc n) rs) (\<lambda>as. Ok (a # as)))))"

declare scan_rows.simps [simp del]

definition query_rows ::
  "db_io \<Rightarrow> string \<Rightarrow> string \<Rightarrow> string \<Rightarrow> string \<Rightarrow> ('r \<Rightarrow> 'a result) \<Rightarrow> database \<Rightarrow> 'r list \<Rightarrow> 'a list result" where
  "query_rows io listMsg scanMsg iterMsg name scan db rows =
     bind_result (wrap_fail listMsg
        (bind_result (guard_io (io Query)) (\<lambda>_. require_table name db)))
       (\<lambda>_. scan_rows io scanMsg iterMsg scan 0 rows)"

definition iface_matches :: "string \<Rightarrow> pk \<Rightarrow> bool" where
  "iface_matches interfaceFilter k \<longleftrightarrow> (if interfaceFilter \<noteq> [] then fst k = interfaceFilter else True)"

definition ListDaily ::
  "db_io \<Rightarrow> string \<Rightarrow> string \<Rightarrow> string \<Rightarrow> database \<Rightarrow> DailyRecord list result" where
  "ListDaily io dateStart dateEnd interfaceFilter db =
     query_rows io ''listing daily records: %w'' ''scanning daily record: %w'' ''iterating daily rows: %w''
       ''mac_traffic_daily'' scan_daily db
       (sort_key fst
         (filter (\<lambda>((k, d), row). iface_matches interfaceFilter k \<and> d \<ge> dateStart \<and> d \<le> dateEnd)
           (daily db)))"

definition ListTotals :: "db_io \<Rightarrow> string \<Rightarrow> database \<Rightarrow> TotalRecord list result" where
  "ListTotals io interfaceFilter db =
     query_rows io ''listing totals: %w'' ''scanning total record: %w'' ''iterating total rows: %w''
       ''mac_traffic_totals'' scan_total db
       (sort_key fst (filter (\<lambda>(k, row). iface_matches interfaceFilter k) (totals db)))"

definition ListCheckpoints :: "db_io \<Rightarrow> string \<Rightarrow> database \<Rightarrow> Checkpoint list result" where
  "ListCheckpoints io interfaceFilter db =
     query_rows io ''listing checkpoints: %w'' ''scanning checkpoint: %w'' ''iterating checkpoint rows: %w''
       ''collector_checkpoints'' scan_checkpoint db
       (sort_key fst (filter (\<lambda>(k, row). iface_matches interfaceFilter k) (checkpoints db)))"

section \<open>Views of the tables\<close>

text \<open>What the three tables hold for a record key, and the three updates a flush makes to them.\<close>

definition total_cells :: "database \<Rightarrow> RecordKey \<Rightarrow> sqlval counters option" where
  "total_cells db k = map_of (totals db) (key_cols k)"

definition daily_cells :: "database \<Rightarrow> RecordKey \<times> string \<Rightarrow> sqlval counters option" where
  "daily_cells db kd = map_of (daily db) (key_cols (fst kd), snd kd)"

definition cp_cells :: "database \<Rightarrow> RecordKey \<Rightarrow> (string \<times> sqlval counters) option" where
  "cp_cells db k = map_of (checkpoints db) (key_cols k)"

definition add_total :: "RecordKey \<Rightarrow> sqlval counters \<Rightarrow> database \<Rightarrow> database" where
  "add_total k v db = db\<lparr>totals := upsert_row (key_cols k) v
     (\<lambda>row. map2_counters sql_add row v) (totals db)\<rparr>"

definition add_daily :: "RecordKey \<times> string \<Rightarrow> sqlval counters \<Rightarrow> database \<Rightarrow> database" where
  "add_daily kd v db = db\<lparr>daily := upsert_row (key_cols (fst kd), snd kd) v
     (\<lambda>row. map2_counters sql_add row v) (daily db)\<rparr>"

definition put_checkpoint :: "RecordKey \<Rightarrow> string \<Rightarrow> sqlval counters \<Rightarrow> database \<Rightarrow> database" where
  "put_checkpoint k d v db = db\<lparr>checkpoints := upsert_row (key_cols k) (d, v)
     (\<lambda>_. (d, v)) (checkpoints db)\<rparr>"

definition schema_ok :: "database \<Rightarrow> bool" where
  "schema_ok db \<longleftrightarrow>
     {''mac_traffic_totals'', ''mac_traffic_daily'', ''collector_checkpoints''} \<subseteq> set (tables db)"

definition wf_db :: "database \<Rightarrow> bool" where
  "wf_db db \<longleftrightarrow> schema_ok db \<and> unique_keys (totals db) \<and> unique_keys (daily db) \<and>
     unique_keys (checkpoints db)"

definition storable :: "TrafficCounters \<Rightarrow> bool" where
  "storable c \<longleftrightarrow> (\<forall>w \<in> set_counters c. uint w < 2 ^ 63)"

definition sql_of :: "TrafficCounters \<Rightarrow> sqlval counters" where
  "sql_of = map_counters (\<lambda>w. SqlInt (uint w))"

section \<open>Keys and values round-trip\<close>

lemma copy_mac_bytes [simp]: "copy_mac (mac_bytes m) = m"
  by (cases m) (simp add: copy_mac_def)

lemma mac_bytes_inject [simp]: "mac_bytes m = mac_bytes m' \<longleftrightarrow> m = m'"
  by (metis copy_mac_bytes)

lemma key_cols_inject [simp]: "key_cols k = key_cols k' \<longleftrightarrow> k = k'"
  by (auto simp: key_cols_def word_uint_eq_iff)

lemma scan_key_cols [simp]: "scan_key (key_cols k) = Ok k"
  using uint_bounded [of "Ifindex k"] by (simp add: scan_key_def key_cols_def scan_uint32_def)

lemma storable_simps [simp]:
  "storable (Counters a b c d e f) \<longleftrightarrow> uint a < 2 ^ 63 \<and> uint b < 2 ^ 63 \<and> uint c < 2 ^ 63 \<and>
     uint d < 2 ^ 63 \<and> uint e < 2 ^ 63 \<and> uint f < 2 ^ 63"
  by (simp add: storable_def)

lemma storable_0 [simp]: "storable 0"
  by (simp add: counters_zero)

lemma bind_uint64s_Ok: "bind_uint64s n ws = Ok () \<longleftrightarrow> (\<forall>w \<in> set ws. uint w < 2 ^ 63)"
  by (induction n ws rule: bind_uint64s.induct) auto

lemma bind_counters_eq:
  "bind_counters n c = Ok v \<longleftrightarrow> storable c \<and> v = sql_of c"
  using bind_uint64s_Ok [of n "counters_list c"]
  by (cases "bind_uint64s n (counters_list c)")
    (auto simp: bind_counters_def sql_of_def storable_def set_counters_list)

lemma bind_counters_Ok [simp]: "storable c \<Longrightarrow> bind_counters n c = Ok (sql_of c)"
  by (simp add: bind_counters_eq)

lemma bind_counters_Fail: "\<not> storable c \<Longrightarrow> \<exists>e. bind_counters n c = Fail e"
  by (cases "bind_counters n c") (auto simp: bind_counters_eq)

lemma scan_uint64_SqlInt [simp]: "scan_uint64 (SqlInt (uint w)) = Ok w"
  using uint_bounded [of w] by simp

lemma scan_counters_sql_of [simp]: "scan_counters (sql_of c) = Ok c"
  by (cases c) (simp add: sql_of_def del: scan_uint64.simps)

lemma sql_of_inject [simp]: "sql_of a = sql_of b \<longleftrightarrow> a = b"
  by (metis scan_counters_sql_of sum.inject(2))

section \<open>Transactions and statements\<close>

lemma in_tx_Ok: "in_tx io wb wc body db = (Ok (), db') \<Longrightarrow> body db = Ok db'"
  by (auto simp: in_tx_def split: option.splits sum.splits)

lemma in_tx_Fail: "in_tx io wb wc body db = (Fail e, db') \<Longrightarrow> db' = db"
  by (auto simp: in_tx_def split: option.splits sum.splits)

lemma in_tx_cases:
  obtains (ok) db' where "in_tx io wb wc body db = (Ok (), db')" "body db = Ok db'"
  | (fail) e where "in_tx io wb wc body db = (Fail e, db)"
  by (cases "in_tx io wb wc body db"; cases "fst (in_tx io wb wc body db)")
    (auto dest: in_tx_Ok in_tx_Fail)

lemma in_tx_no_faults [simp]:
  "in_tx no_faults wb wc body db =
     (case body db of Inl e \<Rightarrow> (Fail e, db) | Inr db' \<Rightarrow> (Ok (), db'))"
  by (simp add: in_tx_def no_faults_def split: sum.splits)

lemma wrap_fail_simps [simp]:
  "wrap_fail msg (Inr a) = Ok a"
  "wrap_fail msg (Inl e) = Fail (wrap_err msg e)"
  by (simp_all add: wrap_fail_def)

lemma wrap_fail_Ok_iff: "wrap_fail msg r = Inr a \<longleftrightarrow> r = Inr a"
  by (cases r) auto

lemma guard_io_simps [simp]: "guard_io None = Ok ()" "guard_io (Some e) = Fail e"
  by (simp_all add: guard_io_def)

lemma guard_io_Ok: "guard_io r = Inr u \<longleftrightarrow> r = None"
  by (cases r) auto

lemma require_table_ok:
  assumes "schema_ok db"
  shows "require_table ''mac_traffic_totals'' db = Ok ()"
    and "require_table ''mac_traffic_daily'' db = Ok ()"
    and "require_table ''collector_checkpoints'' db = Ok ()"
  using assms by (simp_all add: require_table_def schema_ok_def)

lemma exec_upserts_Ok:
  "exec_upsert_total io n k c db = Ok db' \<Longrightarrow> storable c \<and> db' = add_total k (sql_of c) db"
  "exec_upsert_daily io n k d c db = Ok db' \<Longrightarrow> storable c \<and> db' = add_daily (k, d) (sql_of c) db"
  "exec_upsert_checkpoint io n k d c db = Ok db' \<Longrightarrow>
     storable c \<and> db' = put_checkpoint k d (sql_of c) db"
  by (auto simp: exec_upsert_total_def exec_upsert_daily_def exec_upsert_checkpoint_def run_stmt_def
      add_total_def add_daily_def put_checkpoint_def bind_result_Inr_iff bind_counters_eq)

lemma exec_upserts_no_fault:
  assumes "schema_ok db" and "storable c" and "io (Exec n) = None"
  shows "exec_upsert_total io n k c db = Ok (add_total k (sql_of c) db)"
    and "exec_upsert_daily io n k d c db = Ok (add_daily (k, d) (sql_of c) db)"
    and "exec_upsert_checkpoint io n k d c db = Ok (put_checkpoint k d (sql_of c) db)"
  using assms by (simp_all add: exec_upsert_total_def exec_upsert_daily_def
      exec_upsert_checkpoint_def run_stmt_def add_total_def add_daily_def put_checkpoint_def
      require_table_ok)

section \<open>The updates on the views\<close>

lemma views_add_total [simp]:
  "total_cells (add_total k v db) k' =
     (if k' = k then Some (case total_cells db k of None \<Rightarrow> v | Some r \<Rightarrow> map2_counters sql_add r v)
      else total_cells db k')"
  "daily_cells (add_total k v db) kd = daily_cells db kd"
  "cp_cells (add_total k v db) k' = cp_cells db k'"
  "schema_ok (add_total k v db) = schema_ok db"
  by (simp_all add: add_total_def total_cells_def daily_cells_def cp_cells_def schema_ok_def
      map_of_upsert_row)

lemma views_add_daily [simp]:
  "daily_cells (add_daily kd v db) kd' =
     (if kd' = kd then Some (case daily_cells db kd of None \<Rightarrow> v | Some r \<Rightarrow> map2_counters sql_add r v)
      else daily_cells db kd')"
  "total_cells (add_daily kd v db) k' = total_cells db k'"
  "cp_cells (add_daily kd v db) k' = cp_cells db k'"
  "schema_ok (add_daily kd v db) = schema_ok db"
  by (cases kd; cases kd'; simp add: add_daily_def total_cells_def daily_cells_def cp_cells_def
      schema_ok_def map_of_upsert_row)+

lemma views_put_checkpoint [simp]:
  "cp_cells (put_checkpoint k d v db) k' = (if k' = k then Some (d, v) else cp_cells db k')"
  "total_cells (put_checkpoint k d v db) k' = total_cells db k'"
  "daily_cells (put_checkpoint k d v db) kd = daily_cells db kd"
  "schema_ok (put_checkpoint k d v db) = schema_ok db"
  by (auto simp: put_checkpoint_def total_cells_def daily_cells_def cp_cells_def schema_ok_def
      map_of_upsert_row split: option.splits)

lemma wf_db_updates [intro]:
  "wf_db db \<Longrightarrow> wf_db (add_total k v db)"
  "wf_db db \<Longrightarrow> wf_db (add_daily kd v db)"
  "wf_db db \<Longrightarrow> wf_db (put_checkpoint k d v db)"
  by (auto simp: wf_db_def add_total_def add_daily_def put_checkpoint_def schema_ok_def
      unique_keys_upsert_row)

section \<open>Integer contents of a row\<close>

text \<open>\<open>holds_int row n\<close>: the row holds the integers \<open>n\<close>, an absent row counting as zero.\<close>

definition holds_int :: "sqlval counters option \<Rightarrow> int counters \<Rightarrow> bool" where
  "holds_int row n \<longleftrightarrow> (case row of None \<Rightarrow> n = 0 | Some r \<Rightarrow> r = map_counters SqlInt n)"

definition fits :: "int counters \<Rightarrow> bool" where
  "fits n \<longleftrightarrow> (\<forall>i \<in> set_counters n. 0 \<le> i \<and> i < 2 ^ 63)"

lemma fits_simps [simp]:
  "fits (Counters a b c d e f) \<longleftrightarrow> (0 \<le> a \<and> a < 2 ^ 63) \<and> (0 \<le> b \<and> b < 2 ^ 63) \<and>
     (0 \<le> c \<and> c < 2 ^ 63) \<and> (0 \<le> d \<and> d < 2 ^ 63) \<and> (0 \<le> e \<and> e < 2 ^ 63) \<and> (0 \<le> f \<and> f < 2 ^ 63)"
  by (auto simp: fits_def)

lemma fits_counters_uint [simp]: "fits (counters_uint c) \<longleftrightarrow> storable c"
  by (cases c) simp

lemma nonneg_counters_uint [simp]: "0 \<le> counters_uint c"
  by (cases c) (simp add: counters_zero)

lemma nonneg_sum_counters_uint: "0 \<le> (\<Sum>c \<leftarrow> cs. counters_uint c)"
  by (induction cs) (simp_all add: add_nonneg_nonneg)

lemma fits_le: "fits n \<Longrightarrow> 0 \<le> m \<Longrightarrow> m \<le> n \<Longrightarrow> fits m"
  by (cases m; cases n) (auto simp: counters_zero)

lemma holds_int_nonneg_fits: "fits n \<Longrightarrow> 0 \<le> n"
  by (cases n) (simp add: counters_zero)

lemma fits_add_left: "fits (a + b) \<Longrightarrow> 0 \<le> a \<Longrightarrow> 0 \<le> b \<Longrightarrow> fits a"
  by (rule fits_le) (auto simp: add_increasing2)

lemma sql_of_conv: "sql_of c = map_counters SqlInt (counters_uint c)"
  by (cases c) (simp add: sql_of_def)

lemma holds_int_None [simp]: "holds_int None n \<longleftrightarrow> n = 0"
  by (simp add: holds_int_def)

lemma map_counters_SqlInt_inject [simp]:
  "map_counters SqlInt m = map_counters SqlInt n \<longleftrightarrow> m = n"
  by (cases m; cases n) simp

lemma holds_int_Some [simp]:
  "holds_int (Some (map_counters SqlInt m)) n \<longleftrightarrow> n = m"
  by (auto simp: holds_int_def)

lemma holds_int_sql_of [simp]: "holds_int (Some (sql_of c)) n \<longleftrightarrow> n = counters_uint c"
  by (simp add: sql_of_conv)

lemma holds_int_unique: "holds_int r m \<Longrightarrow> holds_int r n \<Longrightarrow> m = n"
  by (auto simp: holds_int_def split: option.splits)

lemma map2_sql_add_fits:
  "fits (m + n) \<Longrightarrow>
   map2_counters sql_add (map_counters SqlInt m) (map_counters SqlInt n) = map_counters SqlInt (m + n)"
  by (cases m; cases n) (simp add: int64_range_def)

lemma uint_add_fits: "uint (a :: uint64) + uint b < 2 ^ 63 \<Longrightarrow> uint (a + b) = uint a + uint b"
  by (rule uint_add_lem [THEN iffD1]) simp

lemma counters_uint_add_fits:
  "fits (counters_uint c + counters_uint d) \<Longrightarrow> counters_uint c + counters_uint d = counters_uint (c + d)"
  by (cases c; cases d) (simp add: uint_add_fits)

lemma sql_of_add:
  "fits (counters_uint c + counters_uint d) \<Longrightarrow> map2_counters sql_add (sql_of c) (sql_of d) = sql_of (c + d)"
  using counters_uint_add_fits [of c d] by (simp add: sql_of_conv map2_sql_add_fits)

section \<open>Accumulating tables\<close>

text \<open>
  The contract of the two tables that add up deltas: a write to a key adds to that key's row, or
  creates it, and touches no other row.
\<close>

locale accumulating_table =
  fixes cells :: "'t \<Rightarrow> 'k \<Rightarrow> sqlval counters option"
    and acc :: "'k \<Rightarrow> sqlval counters \<Rightarrow> 't \<Rightarrow> 't"
  assumes cells_acc:
    "cells (acc k v t) k' =
       (if k' = k then Some (case cells t k of None \<Rightarrow> v | Some r \<Rightarrow> map2_counters sql_add r v)
        else cells t k')"
begin

lemma acc_exact:
  assumes "holds_int (cells t k) n" and "fits (n + m)"
  shows "holds_int (cells (acc k (map_counters SqlInt m) t) k) (n + m)"
  using assms by (auto simp: cells_acc holds_int_def map2_sql_add_fits split: option.splits)

text \<open>A whole run of writes: the row of a key grows by the sum of that key's deltas.\<close>

lemma acc_run_exact:
  assumes "holds_int (cells t k) n" and "0 \<le> n"
    and "fits (n + (\<Sum>c \<leftarrow> map snd (filter (\<lambda>p. fst p = k) kvs). counters_uint c))"
  shows "holds_int (cells (fold (\<lambda>(k, c). acc k (sql_of c)) kvs t) k)
           (n + (\<Sum>c \<leftarrow> map snd (filter (\<lambda>p. fst p = k) kvs). counters_uint c))"
  using assms
proof (induction kvs arbitrary: t n)
  case Nil
  then show ?case by simp
next
  case (Cons p kvs)
  obtain k' c where p: "p = (k', c)" by (cases p)
  let ?rest = "\<Sum>c \<leftarrow> map snd (filter (\<lambda>p. fst p = k) kvs). counters_uint c"
  show ?case
  proof (cases "k' = k")
    case True
    with Cons.prems p have fit: "fits (n + counters_uint c + ?rest)"
      by (simp add: add.assoc)
    have nonneg: "0 \<le> n + counters_uint c"
      by (intro add_nonneg_nonneg) (use Cons.prems in simp_all)
    from fit nonneg nonneg_sum_counters_uint have "fits (n + counters_uint c)"
      by (rule fits_add_left)
    with Cons.prems have "holds_int (cells (acc k (sql_of c) t) k) (n + counters_uint c)"
      by (simp add: acc_exact sql_of_conv)
    from Cons.IH [OF this nonneg fit] True p show ?thesis by (simp add: add.assoc)
  next
    case False
    with Cons.prems p have "holds_int (cells (acc k' (sql_of c) t) k) n"
      by (simp add: cells_acc)
    with Cons False p show ?thesis by simp
  qed
qed

end

interpretation totals_table: accumulating_table total_cells add_total
  by unfold_locales simp

interpretation daily_table: accumulating_table daily_cells add_daily
  by unfold_locales simp

section \<open>Reading what was written\<close>

lemma scan_rows_ok:
  assumes "\<And>n. io (RowsNext n) = None" and "\<And>r. r \<in> set rows \<Longrightarrow> scan r = Ok (f r)"
  shows "scan_rows io scanMsg iterMsg scan n rows = Ok (map f rows)"
  using assms(2)
  by (induction rows arbitrary: n) (simp_all add: scan_rows.simps assms(1))

lemma query_row_ok:
  assumes "io Query = None" and "require_table name db = Ok ()"
  shows "query_row io msg name db None scan = Ok None"
    and "scan r = Ok a \<Longrightarrow> query_row io msg name db (Some r) scan = Ok (Some a)"
    and "scan r = Fail e \<Longrightarrow> query_row io msg name db (Some r) scan = Fail (wrap_err msg e)"
  using assms by (simp_all add: query_row_def)

lemma scan_row_sql_of [simp]:
  "scan_checkpoint (key_cols k, d, sql_of c) = Ok \<lparr>cp_key = k, cp_DateUTC = d, cp_last = c\<rparr>"
  "scan_daily ((key_cols k, d), sql_of c) = Ok \<lparr>daily_key = k, daily_DateUTC = d, daily_counters = c\<rparr>"
  "scan_total (key_cols k, sql_of c) = Ok \<lparr>total_key = k, total_counters = c\<rparr>"
  by (simp_all add: scan_checkpoint_def scan_daily_def scan_total_def)

lemma GetCheckpoint_view:
  assumes "schema_ok db" and "io Query = None"
  shows "cp_cells db k = None \<Longrightarrow> GetCheckpoint io k db = Ok None"
    and "cp_cells db k = Some (d, sql_of c) \<Longrightarrow>
      GetCheckpoint io k db = Ok (Some \<lparr>cp_key = k, cp_DateUTC = d, cp_last = c\<rparr>)"
  using assms by (simp_all add: GetCheckpoint_def cp_cells_def query_row_ok require_table_ok)

lemma GetTotal_view:
  assumes "schema_ok db" and "io Query = None"
  shows "total_cells db k = None \<Longrightarrow> GetTotal io k db = Ok None"
    and "total_cells db k = Some (sql_of c) \<Longrightarrow>
      GetTotal io k db = Ok (Some \<lparr>total_key = k, total_counters = c\<rparr>)"
    and "total_cells db k = Some cells \<Longrightarrow> scan_counters cells = Fail e \<Longrightarrow>
      GetTotal io k db = Fail (wrap_err ''querying total record: %w'' e)"
  using assms
  by (simp_all add: GetTotal_def total_cells_def query_row_ok require_table_ok scan_total_def)

lemma GetDaily_view:
  assumes "schema_ok db" and "io Query = None"
  shows "daily_cells db (k, d) = None \<Longrightarrow> GetDaily io k d db = Ok None"
    and "daily_cells db (k, d) = Some (sql_of c) \<Longrightarrow>
      GetDaily io k d db = Ok (Some \<lparr>daily_key = k, daily_DateUTC = d, daily_counters = c\<rparr>)"
  using assms by (simp_all add: GetDaily_def daily_cells_def query_row_ok require_table_ok)

lemma upsert_shapes:
  assumes "schema_ok db" and "storable c"
  shows "UpsertTotal no_faults k c db = (Ok (), add_total k (sql_of c) db)"
    and "UpsertDaily no_faults k d c db = (Ok (), add_daily (k, d) (sql_of c) db)"
    and "UpsertCheckpoint no_faults k d c db = (Ok (), put_checkpoint k d (sql_of c) db)"
  using assms by (simp_all add: UpsertTotal_def UpsertDaily_def UpsertCheckpoint_def
      exec_upserts_no_fault no_faults_def [THEN fun_cong])

text \<open>A row whose sum left the signed 64-bit range stays unreadable whatever is added to it.\<close>

definition overflowed :: "sqlval counters \<Rightarrow> bool" where
  "overflowed cells \<longleftrightarrow> SqlReal \<in> set_counters cells"

lemma overflowed_simps [simp]:
  "overflowed (Counters a b c d e f) \<longleftrightarrow> a = SqlReal \<or> b = SqlReal \<or> c = SqlReal \<or> d = SqlReal \<or>
     e = SqlReal \<or> f = SqlReal"
  by (auto simp: overflowed_def)

lemma sql_add_SqlReal [simp]: "sql_add SqlReal v = SqlReal" "sql_add v SqlReal = SqlReal"
  by (cases v; simp)+

lemma overflowed_stays: "overflowed r \<Longrightarrow> overflowed (map2_counters sql_add r v)"
  by (cases r; cases v) auto

lemma overflowed_unreadable: "overflowed r \<Longrightarrow> \<exists>e. scan_counters r = Fail e"
  by (cases r) (auto simp: bind_result_def split: sum.splits)

lemma overflow_marks:
  "holds_int (Some r) n \<Longrightarrow> 0 \<le> n \<Longrightarrow> \<not> fits (n + counters_uint c) \<Longrightarrow>
   overflowed (map2_counters sql_add r (sql_of c))"
  by (cases n; cases c)
    (auto simp: holds_int_def sql_of_def int64_range_def counters_zero add_nonneg_nonneg)

lemma UpsertTotal_Ok_view:
  "UpsertTotal io k' c db = (Ok (), db') \<Longrightarrow> db' = add_total k' (sql_of c) db"
  unfolding UpsertTotal_def by (drule in_tx_Ok) (auto simp: wrap_fail_Ok_iff dest: exec_upserts_Ok)

lemma UpsertTotal_keeps_overflow:
  assumes "total_cells db k = Some r" and "overflowed r"
  shows "\<exists>r'. total_cells (snd (UpsertTotal io k' c db)) k = Some r' \<and> overflowed r'"
proof (cases "UpsertTotal io k' c db")
  case (Pair res db')
  show ?thesis
  proof (cases res)
    case (Inl e)
    with Pair have "db' = db" unfolding UpsertTotal_def by (auto dest: in_tx_Fail)
    with Pair assms show ?thesis by simp
  next
    case (Inr u)
    with Pair have "db' = add_total k' (sql_of c) db" by (auto dest: UpsertTotal_Ok_view)
    with Pair assms show ?thesis by (auto simp: overflowed_stays)
  qed
qed

section \<open>Opening and pruning on the views\<close>

lemma create_table_Ok:
  "create_table io n name db = Ok db' \<Longrightarrow>
   totals db' = totals db \<and> daily db' = daily db \<and> checkpoints db' = checkpoints db \<and>
   set (tables db') = insert name (set (tables db)) \<and> indexes db' = indexes db"
  by (auto simp: create_table_def wrap_fail_Ok_iff bind_result_Inr_iff split: if_splits)

lemma create_index_Ok:
  "create_index io n name db = Ok db' \<Longrightarrow>
   totals db' = totals db \<and> daily db' = daily db \<and> checkpoints db' = checkpoints db \<and>
   tables db' = tables db \<and> set (indexes db') = insert name (set (indexes db))"
  by (auto simp: create_index_def wrap_fail_Ok_iff bind_result_Inr_iff split: if_splits)

lemma initSchema_Ok:
  assumes "initSchema io db = (Ok (), db')"
  shows "totals db' = totals db \<and> daily db' = daily db \<and> checkpoints db' = checkpoints db \<and>
    set (tables db') = set (tables db) \<union>
      {''mac_traffic_totals'', ''mac_traffic_daily'', ''collector_checkpoints''}"
  using assms unfolding initSchema_def
  by (auto dest!: in_tx_Ok create_table_Ok create_index_Ok simp: bind_result_Inr_iff)

lemma initSchema_Fail: "initSchema io db = (Fail e, db') \<Longrightarrow> db' = db"
  unfolding initSchema_def by (rule in_tx_Fail)

lemma New_Ok: "New io db = (Ok (), db') \<Longrightarrow> initSchema io db = (Ok (), db')"
  by (auto simp: New_def split: option.splits prod.splits sum.splits)

lemma New_Fail: "New io db = (Fail e, db') \<Longrightarrow> db' = db"
  by (auto simp: New_def dest: initSchema_Fail split: option.splits prod.splits sum.splits)

lemma New_cases:
  obtains (opened) db' where "New io db = (Ok (), db')" "initSchema io db = (Ok (), db')"
  | (failed) e where "New io db = (Fail e, db)"
proof (cases "New io db")
  case (Pair r db')
  then show ?thesis by (cases r) (use that New_Ok New_Fail in auto)
qed

lemma New_views [simp]:
  "total_cells (snd (New io db)) k = total_cells db k"
  "daily_cells (snd (New io db)) kd = daily_cells db kd"
  "cp_cells (snd (New io db)) k = cp_cells db k"
  "daily (snd (New io db)) = daily db"
  by (cases rule: New_cases [of io db];
      auto dest!: initSchema_Ok simp: total_cells_def daily_cells_def cp_cells_def)+

lemma New_schema_ok: "New io db = (Ok (), db') \<Longrightarrow> schema_ok db'"
  by (cases rule: New_cases [of io db]) (auto dest!: initSchema_Ok simp: schema_ok_def)

lemma New_schema_mono: "schema_ok db \<Longrightarrow> schema_ok (snd (New io db))"
  by (cases rule: New_cases [of io db]) (auto dest!: initSchema_Ok simp: schema_ok_def)

lemma PruneDaily_cases:
  obtains (pruned) r where
    "PruneDaily io cutoff db = (r, db\<lparr>daily := filter (\<lambda>((k, d), row). \<not> d < cutoff) (daily db)\<rparr>)"
  | (failed) e where "PruneDaily io cutoff db = (Fail e, db)"
  by (cases "bind_result (guard_io (io (Exec 1))) (\<lambda>_. require_table ''mac_traffic_daily'' db)";
      cases "io RowsAffected") (use that in \<open>auto simp: PruneDaily_def Let_def\<close>)

lemma PruneDaily_frame [simp]:
  "total_cells (snd (PruneDaily io cutoff db)) k = total_cells db k"
  "cp_cells (snd (PruneDaily io cutoff db)) k = cp_cells db k"
  "schema_ok (snd (PruneDaily io cutoff db)) = schema_ok db"
  by (cases rule: PruneDaily_cases [of io cutoff db];
      simp add: total_cells_def cp_cells_def schema_ok_def)+

lemma PruneDaily_daily:
  "daily_cells (snd (PruneDaily io cutoff db)) (k, d) = daily_cells db (k, d) \<or>
   (d < cutoff \<and> daily_cells (snd (PruneDaily io cutoff db)) (k, d) = None)"
proof (cases rule: PruneDaily_cases [of io cutoff db])
  case (pruned r)
  have "map_of (filter (\<lambda>((k, d), row). \<not> d < cutoff) (daily db)) (key_cols k, d) =
      (if \<not> d < cutoff then map_of (daily db) (key_cols k, d) else None)"
    using map_of_filter_key [of "\<lambda>(k, d). \<not> d < cutoff" "daily db" "(key_cols k, d)"]
    by (simp add: case_prod_unfold)
  with pruned show ?thesis by (simp add: daily_cells_def)
qed simp

end
