(* ===== verification/Traffic_Map.thy ===== *)
theory Traffic_Map
  imports Storage "HOL-Library.AList"
begin

text \<open>
  The kernel side of the counters: the traffic map of \<open>internal/ebpf/ebpf.go\<close> and \<open>map.go\<close> as
  userspace reads it, and the two classifiers of \<open>bpf/ingress.c\<close> that write it. The map itself lives
  in the kernel and is reached through cilium/ebpf, so both are arguments here: a handle with the
  library's conversions between Go values and bytes and with the kernel's answers in bytes, where the
  \<open>n\<close>-th call may answer anything, which covers every concurrent update and every failure. A map
  that does not change while it is read is the locale \<open>stable_map\<close>; what the library documents of
  its conversions is \<open>binary_encoding\<close>.
\<close>

section \<open>Keys, counters and the map's layout\<close>

record TrafficKey =
  key_Ifindex :: uint32
  key_Mac :: mac

type_synonym TrafficCounter = "uint64 counters"

datatype map_type = Hash

record MapSpec =
  spec_Name :: string
  spec_Type :: map_type
  spec_KeySize :: nat
  spec_ValueSize :: nat
  spec_MaxEntries :: nat

definition TrafficMapSpec :: MapSpec where
  "TrafficMapSpec = \<lparr>spec_Name = ''traffic_map'', spec_Type = Hash, spec_KeySize = 12,
     spec_ValueSize = 48, spec_MaxEntries = 262144\<rparr>"

section \<open>Reading the map\<close>

text \<open>
  An open \<open>*ebpf.Map\<close>. \<open>lib_marshal_key\<close> is what the library makes of a \<open>*TrafficKey\<close>, \<open>None\<close> being the
  nil pointer: the address of the bytes it hands to the kernel (\<open>None\<close> for a null address), or an error.
  The other two conversions fill the Go variables from the bytes the kernel wrote. The kernel's calls
  see bytes only.
\<close>

record bpf_handle =
  lib_marshal_key :: "TrafficKey option \<Rightarrow> byte list option result"
  lib_unmarshal_key :: "byte list \<Rightarrow> TrafficKey result"
  lib_unmarshal_value :: "byte list \<Rightarrow> TrafficCounter result"
  kernel_NextKey :: "nat \<Rightarrow> byte list option \<Rightarrow> byte list result"
  kernel_Lookup :: "nat \<Rightarrow> byte list option \<Rightarrow> byte list result"

text \<open>\<open>TrafficMap\<close> wraps a map pointer that may be nil.\<close>

record TrafficMap =
  tm_m :: "bpf_handle option"

definition NewTrafficMap :: "(MapSpec \<Rightarrow> bpf_handle result) \<Rightarrow> TrafficMap result" where
  "NewTrafficMap ebpf_NewMap =
     (case ebpf_NewMap TrafficMapSpec of
        Inl e \<Rightarrow> Fail (wrap_err ''failed to create traffic map: %w'' e)
      | Inr mp \<Rightarrow> Ok \<lparr>tm_m = Some mp\<rparr>)"

definition TrafficMap_Map :: "TrafficMap \<Rightarrow> bpf_handle option" where
  "TrafficMap_Map tm = tm_m tm"

record MapIterator =
  currKey :: "TrafficKey option"
  iterErr :: "err option"
  calls :: nat

text \<open>\<open>calls\<close> is not a field of the Go struct: it numbers the kernel calls made so far.\<close>

definition Iterate :: MapIterator where
  "Iterate = \<lparr>currKey = None, iterErr = None, calls = 0\<rparr>"

definition TrafficMap_NextKey :: "bpf_handle \<Rightarrow> nat \<Rightarrow> TrafficKey option \<Rightarrow> TrafficKey result" where
  "TrafficMap_NextKey m n prev =
     bind_result (lib_marshal_key m prev) (\<lambda>key.
     bind_result (kernel_NextKey m n key) (lib_unmarshal_key m))"

definition TrafficMap_Lookup :: "bpf_handle \<Rightarrow> nat \<Rightarrow> TrafficKey \<Rightarrow> TrafficCounter result" where
  "TrafficMap_Lookup m n key =
     bind_result (lib_marshal_key m (Some key)) (\<lambda>k.
     bind_result (kernel_Lookup m n k) (lib_unmarshal_value m))"

definition Next :: "bpf_handle \<Rightarrow> MapIterator \<Rightarrow> (TrafficKey \<times> TrafficCounter) option \<times> MapIterator" where
  "Next m mi =
     (if iterErr mi \<noteq> None then (None, mi)
      else case TrafficMap_NextKey m (calls mi) (currKey mi) of
        Inl e \<Rightarrow> (None, mi\<lparr>iterErr := Some e, calls := calls mi + 1\<rparr>)
      | Inr key \<Rightarrow>
          (case TrafficMap_Lookup m (calls mi + 1) key of
             Inl e \<Rightarrow> (None, mi\<lparr>iterErr := Some e, calls := calls mi + 2\<rparr>)
           | Inr counter \<Rightarrow>
               (Some (key, counter), mi\<lparr>currKey := Some key, calls := calls mi + 2\<rparr>)))"

section \<open>The classifiers\<close>

text \<open>
  \<open>struct __sk_buff\<close>, as far as the programs read it: the bytes between \<open>data\<close> and \<open>data_end\<close>, the
  interface and the packet length.
\<close>

record sk_buff =
  skb_data :: "byte list"
  skb_ifindex :: uint32
  skb_len :: uint32

datatype direction = Ingress | Egress

text \<open>
  The kernel's map helpers, an argument of the programs: look an element up, insert or replace one
  (which the kernel may refuse), and write through the pointer a lookup returned.
\<close>

record 'm bpf_helpers =
  map_lookup_elem :: "'m \<Rightarrow> TrafficKey \<Rightarrow> TrafficCounter option"
  map_update_elem :: "'m \<Rightarrow> TrafficKey \<Rightarrow> TrafficCounter \<Rightarrow> 'm"
  store_elem :: "'m \<Rightarrow> TrafficKey \<Rightarrow> TrafficCounter \<Rightarrow> 'm"

definition eth_mac :: "direction \<Rightarrow> byte list \<Rightarrow> mac" where
  "eth_mac dir frame =
     (case dir of Ingress \<Rightarrow> copy_mac (take 6 frame) | Egress \<Rightarrow> copy_mac (take 6 (drop 6 frame)))"

text \<open>The four \<open>__sync_fetch_and_add\<close> of a program: \<open>skb->len\<close> is widened to 64 bits.\<close>

definition count_packet :: "direction \<Rightarrow> uint32 \<Rightarrow> TrafficCounter \<Rightarrow> TrafficCounter" where
  "count_packet dir len c =
     (case dir of
        Ingress \<Rightarrow> c + Counters (ucast len) 1 (ucast len) 1 0 0
      | Egress \<Rightarrow> c + Counters (ucast len) 1 0 0 (ucast len) 1)"

definition handle_packet :: "'m bpf_helpers \<Rightarrow> direction \<Rightarrow> sk_buff \<Rightarrow> 'm \<Rightarrow> 'm" where
  "handle_packet K dir skb m =
     (if length (skb_data skb) < 14 then m
      else let key = \<lparr>key_Ifindex = skb_ifindex skb, key_Mac = eth_mac dir (skb_data skb)\<rparr>
           in case map_lookup_elem K m key of
                Some c \<Rightarrow> store_elem K m key (count_packet dir (skb_len skb) c)
              | None \<Rightarrow>
                  (let m' = map_update_elem K m key 0
                   in case map_lookup_elem K m' key of
                        None \<Rightarrow> m'
                      | Some c \<Rightarrow> store_elem K m' key (count_packet dir (skb_len skb) c)))"

definition handle_ingress :: "'m bpf_helpers \<Rightarrow> sk_buff \<Rightarrow> 'm \<Rightarrow> 'm" where
  "handle_ingress K = handle_packet K Ingress"

definition handle_egress :: "'m bpf_helpers \<Rightarrow> sk_buff \<Rightarrow> 'm \<Rightarrow> 'm" where
  "handle_egress K = handle_packet K Egress"

section \<open>Maps that do not change while they are read\<close>

text \<open>
  What userspace relies on of a hash map at rest: \<open>NextKey\<close> walks through all keys once, from the
  first to the last, and then reports that there is no next key; \<open>Lookup\<close> finds each of them.
\<close>

locale stable_map =
  fixes handle :: bpf_handle and entries :: "(TrafficKey \<times> TrafficCounter) list"
  assumes first_key: "entries = (k, c) # rest \<Longrightarrow> TrafficMap_NextKey handle n None = Ok k"
    and next_key: "entries = pre @ (k, c) # (k', c') # post \<Longrightarrow>
      TrafficMap_NextKey handle n (Some k) = Ok k'"
    and last_key: "entries = pre @ [(k, c)] \<Longrightarrow> \<exists>e. TrafficMap_NextKey handle n (Some k) = Fail e"
    and no_key: "entries = [] \<Longrightarrow> \<exists>e. TrafficMap_NextKey handle n None = Fail e"
    and lookup_key: "(k, c) \<in> set entries \<Longrightarrow> TrafficMap_Lookup handle n k = Ok c"
begin

definition at_entry :: "(TrafficKey \<times> TrafficCounter) list \<Rightarrow> MapIterator \<Rightarrow> bool" where
  "at_entry rest mi \<longleftrightarrow> iterErr mi = None \<and>
     (\<exists>pre. entries = pre @ rest \<and> currKey mi = (if pre = [] then None else Some (fst (last pre))))"

lemma at_entry_start: "at_entry entries Iterate"
  by (simp add: at_entry_def Iterate_def)

lemma at_entry_Cons:
  assumes "at_entry ((k, c) # rest) mi"
  shows "\<exists>mi'. Next handle mi = (Some (k, c), mi') \<and> at_entry rest mi'"
proof -
  obtain pre where mi: "iterErr mi = None" and pre: "entries = pre @ (k, c) # rest"
    and ck: "currKey mi = (if pre = [] then None else Some (fst (last pre)))"
    using assms by (auto simp: at_entry_def)
  have "TrafficMap_NextKey handle (calls mi) (currKey mi) = Ok k"
  proof (cases pre rule: rev_cases)
    case Nil
    with pre ck show ?thesis by (simp add: first_key)
  next
    case (snoc pre' p)
    with pre have "entries = pre' @ (fst p, snd p) # (k, c) # rest" by simp
    from next_key [OF this] snoc ck show ?thesis by simp
  qed
  moreover have "TrafficMap_Lookup handle (calls mi + 1) k = Ok c"
    by (rule lookup_key) (simp add: pre)
  moreover have "entries = (pre @ [(k, c)]) @ rest" by (simp add: pre)
  ultimately show ?thesis
    unfolding at_entry_def using mi by (auto simp: Next_def intro!: exI [of _ "pre @ [(k, c)]"])
qed

lemma at_entry_Nil:
  assumes "at_entry [] mi"
  shows "\<exists>mi'. Next handle mi = (None, mi')"
proof -
  have mi: "iterErr mi = None"
    and ck: "currKey mi = (if entries = [] then None else Some (fst (last entries)))"
    using assms by (auto simp: at_entry_def)
  have "\<exists>e. TrafficMap_NextKey handle (calls mi) (currKey mi) = Fail e"
  proof (cases entries rule: rev_cases)
    case Nil
    with ck show ?thesis by (simp add: no_key)
  next
    case (snoc pre p)
    then have "entries = pre @ [(fst p, snd p)]" by simp
    from last_key [OF this] snoc ck show ?thesis by simp
  qed
  with mi show ?thesis by (auto simp: Next_def)
qed

end

section \<open>Keys and counters as bytes\<close>

text \<open>The bytes of a word, the lowest first, and the word of such bytes.\<close>

primrec le_bytes :: "nat \<Rightarrow> 'a::len word \<Rightarrow> byte list" where
  "le_bytes 0 w = []"
| "le_bytes (Suc n) w = ucast w # le_bytes n (drop_bit 8 w)"

primrec of_le_bytes :: "byte list \<Rightarrow> 'a::len word" where
  "of_le_bytes [] = 0"
| "of_le_bytes (b # bs) = ucast b + push_bit 8 (of_le_bytes bs)"

lemma length_le_bytes [simp]: "length (le_bytes n w) = n"
  by (induction n arbitrary: w) simp_all

lemma of_le_bytes [simp]:
  "8 \<le> LENGTH('a) \<Longrightarrow> drop_bit (8 * n) w = 0 \<Longrightarrow> of_le_bytes (le_bytes n w) = (w :: 'a::len word)"
proof (induction n arbitrary: w)
  case (Suc n)
  then have "of_le_bytes (le_bytes n (drop_bit 8 w)) = drop_bit 8 w" by (simp add: add.commute)
  moreover have "ucast (ucast w :: byte) = take_bit 8 w"
    using Suc.prems(1) by (intro bit_word_eqI) (auto simp: bit_simps)
  ultimately show ?case using bits_ident [of 8 w] by (simp add: add.commute)
qed simp

text \<open>
  What \<open>binary.Write\<close> makes of a key: its fields without padding, in the byte order of the target. The
  library's documentation: keys and values are encoded with \<open>encoding/binary\<close>, and a value that does not
  encode to the size in the map's specification is refused.
\<close>

definition binary_Write_key :: "TrafficKey \<Rightarrow> byte list" where
  "binary_Write_key k = le_bytes 4 (key_Ifindex k) @ mac_bytes (key_Mac k)"

definition binary_encoding :: "MapSpec \<Rightarrow> bpf_handle \<Rightarrow> bool" where
  "binary_encoding spec m \<longleftrightarrow>
     (\<forall>k. length (binary_Write_key k) \<noteq> spec_KeySize spec \<longrightarrow> (\<exists>e. lib_marshal_key m (Some k) = Fail e))"

lemma length_mac_bytes [simp]: "length (mac_bytes m) = 6"
  by (cases m) simp

text \<open>The key struct takes ten bytes, the map's keys twelve: no lookup gets through.\<close>

lemma binary_encoding_refuses:
  assumes "binary_encoding TrafficMapSpec m"
  shows "\<exists>e. TrafficMap_Lookup m n key = Fail e"
proof -
  obtain e where "lib_marshal_key m (Some key) = Fail e"
    using assms by (auto simp: binary_encoding_def binary_Write_key_def TrafficMapSpec_def)
  then show ?thesis by (simp add: TrafficMap_Lookup_def)
qed

lemma binary_encoding_reads_nothing:
  assumes "binary_encoding TrafficMapSpec m" and "iterErr mi = None"
  obtains mi' e where "Next m mi = (None, mi')" and "iterErr mi' = Some e"
proof (cases "TrafficMap_NextKey m (calls mi) (currKey mi)")
  case (Inl e)
  with assms(2) show ?thesis by (intro that [of "mi\<lparr>iterErr := Some e, calls := calls mi + 1\<rparr>" e]) (simp_all add: Next_def)
next
  case (Inr key)
  obtain e where "TrafficMap_Lookup m (calls mi + 1) key = Fail e"
    using binary_encoding_refuses [OF assms(1)] by blast
  with Inr assms(2) show ?thesis
    by (intro that [of "mi\<lparr>iterErr := Some e, calls := calls mi + 2\<rparr>" e]) (simp_all add: Next_def)
qed

text \<open>
  The layout of \<open>struct traffic_key\<close> and \<open>struct traffic_counter\<close> in the kernel's map: the key has two
  bytes of padding.
\<close>

definition kernel_key :: "TrafficKey \<Rightarrow> byte list" where
  "kernel_key k = binary_Write_key k @ [0, 0]"

definition key_of_kernel :: "byte list \<Rightarrow> TrafficKey" where
  "key_of_kernel bs = \<lparr>key_Ifindex = of_le_bytes (take 4 bs), key_Mac = copy_mac (take 6 (drop 4 bs))\<rparr>"

fun kernel_value :: "TrafficCounter \<Rightarrow> byte list" where
  "kernel_value (Counters a b c d e f) =
     le_bytes 8 a @ le_bytes 8 b @ le_bytes 8 c @ le_bytes 8 d @ le_bytes 8 e @ le_bytes 8 f"

definition value_of_kernel :: "byte list \<Rightarrow> TrafficCounter" where
  "value_of_kernel bs =
     (let field = (\<lambda>i. of_le_bytes (take 8 (drop (8 * i) bs)))
      in Counters (field 0) (field 1) (field 2) (field 3) (field 4) (field 5))"

lemma key_of_kernel [simp]: "key_of_kernel (kernel_key k) = k"
proof -
  have "drop_bit 32 (key_Ifindex k) = 0" by (intro bit_word_eqI) (simp add: bit_simps)
  then show ?thesis by (simp add: key_of_kernel_def kernel_key_def binary_Write_key_def)
qed

lemma kernel_key_inject [simp]: "kernel_key k = kernel_key k' \<longleftrightarrow> k = k'"
  by (metis key_of_kernel)

lemma value_of_kernel [simp]: "value_of_kernel (kernel_value c) = c"
proof -
  have "drop_bit 64 (x :: uint64) = 0" for x by (intro bit_word_eqI) (simp add: bit_simps)
  then show ?thesis by (cases c) (simp add: value_of_kernel_def)
qed

section \<open>Handles for the witnesses\<close>

text \<open>
  A list of entries with distinct keys, read as a map at rest through a library that encodes keys with
  their padding and takes a nil pointer for the null address.
\<close>

fun next_in :: "byte list \<Rightarrow> (TrafficKey \<times> TrafficCounter) list \<Rightarrow> byte list result" where
  "next_in k ((a, _) # (b, c) # rest) = (if kernel_key a = k then Ok (kernel_key b) else next_in k ((b, c) # rest))"
| "next_in k _ = Fail (ExtErr ''key does not exist'')"

fun lookup_in :: "byte list \<Rightarrow> (TrafficKey \<times> TrafficCounter) list \<Rightarrow> byte list result" where
  "lookup_in k [] = Fail (ExtErr ''key does not exist'')"
| "lookup_in k ((a, c) # rest) = (if kernel_key a = k then Ok (kernel_value c) else lookup_in k rest)"

definition kernel_next :: "(TrafficKey \<times> TrafficCounter) list \<Rightarrow> byte list option \<Rightarrow> byte list result" where
  "kernel_next kvs prev =
     (case prev of
        None \<Rightarrow> (case kvs of [] \<Rightarrow> Fail (ExtErr ''key does not exist'') | kv # _ \<Rightarrow> Ok (kernel_key (fst kv)))
      | Some k \<Rightarrow> next_in k kvs)"

definition list_handle :: "(TrafficKey \<times> TrafficCounter) list \<Rightarrow> bpf_handle" where
  "list_handle kvs =
     \<lparr>lib_marshal_key = (\<lambda>key. Ok (map_option kernel_key key)),
      lib_unmarshal_key = (\<lambda>bs. Ok (key_of_kernel bs)), lib_unmarshal_value = (\<lambda>bs. Ok (value_of_kernel bs)),
      kernel_NextKey = (\<lambda>_. kernel_next kvs),
      kernel_Lookup = (\<lambda>_ k. case k of None \<Rightarrow> Fail (ExtErr ''bad address'') | Some k \<Rightarrow> lookup_in k kvs)\<rparr>"

definition two_entries :: "(TrafficKey \<times> TrafficCounter) list" where
  "two_entries =
     [(\<lparr>key_Ifindex = 2, key_Mac = Mac 1 2 3 4 5 6\<rparr>, Counters 60 1 60 1 0 0),
      (\<lparr>key_Ifindex = 3, key_Mac = Mac 1 2 3 4 5 6\<rparr>, Counters 90 1 90 1 0 0)]"

text \<open>The same map through the library as documented.\<close>

definition cilium_handle :: "MapSpec \<Rightarrow> (TrafficKey \<times> TrafficCounter) list \<Rightarrow> bpf_handle" where
  "cilium_handle spec kvs = (list_handle kvs)
     \<lparr>lib_marshal_key := (\<lambda>key. case key of
        None \<Rightarrow> Fail (ExtErr ''binary.Write: some values are not fixed-sized'')
      | Some k \<Rightarrow> if length (binary_Write_key k) = spec_KeySize spec then Ok (Some (binary_Write_key k))
          else Fail (Errorf ''%T doesn't marshal to %d bytes'' [AInt (int (spec_KeySize spec))]))\<rparr>"

lemma binary_encoding_cilium: "binary_encoding spec (cilium_handle spec kvs)"
  by (simp add: binary_encoding_def cilium_handle_def)

lemma next_in_middle:
  "distinct (map fst (pre @ (k, c) # (k', c') # post)) \<Longrightarrow>
   next_in (kernel_key k) (pre @ (k, c) # (k', c') # post) = Ok (kernel_key k')"
proof (induction pre)
  case (Cons p pre)
  then show ?case by (cases p; cases pre) auto
qed simp

lemma next_in_last:
  "distinct (map fst (pre @ [(k, c)])) \<Longrightarrow>
   next_in (kernel_key k) (pre @ [(k, c)]) = Fail (ExtErr ''key does not exist'')"
proof (induction pre)
  case (Cons p pre)
  then show ?case by (cases p; cases pre) auto
qed simp

lemma lookup_in_set:
  "distinct (map fst kvs) \<Longrightarrow> (k, c) \<in> set kvs \<Longrightarrow> lookup_in (kernel_key k) kvs = Ok (kernel_value c)"
  by (induction kvs) (auto simp: image_iff)

text \<open>The contents of a kernel map, read at rest.\<close>

type_synonym kmap = "(TrafficKey, TrafficCounter) table"

definition snapshot :: "kmap \<Rightarrow> bpf_handle" where
  "snapshot m = list_handle (AList.clearjunk m)"

lemma stable_list_handle: "unique_keys kvs \<Longrightarrow> stable_map (list_handle kvs) kvs"
  by unfold_locales (auto simp: list_handle_def unique_keys_def next_in_middle next_in_last lookup_in_set
      TrafficMap_NextKey_def TrafficMap_Lookup_def kernel_next_def)

lemma clearjunk_unique: "unique_keys m \<Longrightarrow> AList.clearjunk m = m"
  by (simp add: unique_keys_def AList.distinct_clearjunk_id)

interpretation rest: stable_map "snapshot m" "AList.clearjunk m" for m
  unfolding snapshot_def
  by (rule stable_list_handle) (simp add: unique_keys_def distinct_clearjunk)

section \<open>The hash map the classifiers write\<close>

text \<open>
  The documented contract of the kernel's hash-map helpers: writing through the pointer of a present
  element replaces its value, inserting a new element either adds exactly it or, when the kernel
  refuses, changes nothing.
\<close>

locale bpf_hash =
  fixes K :: "'m bpf_helpers"
  assumes lookup_store: "map_lookup_elem K m k \<noteq> None \<Longrightarrow>
      map_lookup_elem K (store_elem K m k c) = (map_lookup_elem K m)(k \<mapsto> c)"
    and lookup_update: "map_lookup_elem K m k = None \<Longrightarrow>
      map_lookup_elem K (map_update_elem K m k c) = (map_lookup_elem K m)(k \<mapsto> c) \<or>
      map_lookup_elem K (map_update_elem K m k c) = map_lookup_elem K m"

definition packet_key :: "direction \<Rightarrow> sk_buff \<Rightarrow> TrafficKey" where
  "packet_key dir skb = \<lparr>key_Ifindex = skb_ifindex skb, key_Mac = eth_mac dir (skb_data skb)\<rparr>"

definition is_frame :: "sk_buff \<Rightarrow> bool" where
  "is_frame skb \<longleftrightarrow> 14 \<le> length (skb_data skb)"

context bpf_hash
begin

lemma handle_packet_lookup:
  "map_lookup_elem K (handle_packet K dir skb m) =
     (if \<not> is_frame skb then map_lookup_elem K m
      else let k = packet_key dir skb in
        case map_lookup_elem K m k of
          Some c \<Rightarrow> (map_lookup_elem K m)(k \<mapsto> count_packet dir (skb_len skb) c)
        | None \<Rightarrow>
            (if map_lookup_elem K (map_update_elem K m k 0) k = None then map_lookup_elem K m
             else (map_lookup_elem K m)(k \<mapsto> count_packet dir (skb_len skb) 0)))"
  using lookup_update [of m "packet_key dir skb" 0]
  by (auto simp: handle_packet_def is_frame_def packet_key_def [symmetric] Let_def lookup_store
      split: option.splits)

lemma handle_packet_other:
  "k \<noteq> packet_key dir skb \<Longrightarrow>
   map_lookup_elem K (handle_packet K dir skb m) k = map_lookup_elem K m k"
  by (auto simp: handle_packet_lookup Let_def split: option.splits)

lemma handle_packet_counted:
  "is_frame skb \<Longrightarrow> map_lookup_elem K m (packet_key dir skb) = Some c \<Longrightarrow>
   map_lookup_elem K (handle_packet K dir skb m) (packet_key dir skb) =
     Some (count_packet dir (skb_len skb) c)"
  by (simp add: handle_packet_lookup Let_def)

end

text \<open>A hash map with a capacity, as \<open>max_entries\<close> gives it: a full map refuses new keys.\<close>

definition hash_helpers :: "nat \<Rightarrow> kmap bpf_helpers" where
  "hash_helpers max_entries =
     \<lparr>map_lookup_elem = map_of,
      map_update_elem = (\<lambda>m k c. if map_of m k = None \<and> max_entries \<le> length m then m
                           else upsert_row k c (\<lambda>_. c) m),
      store_elem = (\<lambda>m k c. upsert_row k c (\<lambda>_. c) m)\<rparr>"

lemma map_of_replace [simp]: "map_of (upsert_row k c (\<lambda>_. c) m) = (map_of m)(k \<mapsto> c)"
  by (simp add: map_of_upsert_row split: option.splits)

interpretation hash: bpf_hash "hash_helpers n" for n
  by unfold_locales (auto simp: hash_helpers_def)

section \<open>A run of packets\<close>

type_synonym packet = "direction \<times> sk_buff"

definition handle :: "nat \<Rightarrow> packet \<Rightarrow> kmap \<Rightarrow> kmap" where
  "handle n p m = (case fst p of
     Ingress \<Rightarrow> handle_ingress (hash_helpers n) (snd p) m
   | Egress \<Rightarrow> handle_egress (hash_helpers n) (snd p) m)"

text \<open>What a packet adds to the counters of a key.\<close>

definition packet_counts :: "TrafficKey \<Rightarrow> packet \<Rightarrow> TrafficCounter" where
  "packet_counts k p =
     (if is_frame (snd p) \<and> packet_key (fst p) (snd p) = k
      then count_packet (fst p) (skb_len (snd p)) 0 else 0)"

lemma handle_eq: "handle n p m = handle_packet (hash_helpers n) (fst p) (snd p) m"
  by (simp add: handle_def handle_ingress_def handle_egress_def split: direction.splits)

lemma count_packet_add: "count_packet dir len c = c + count_packet dir len 0"
  by (cases dir; cases c) (simp_all add: count_packet_def counters_zero)

lemma length_upsert_row:
  "length (upsert_row k c f m) = (if k \<in> fst ` set m then length m else Suc (length m))"
  by (induction k c f m rule: upsert_row.induct) auto

lemma map_of_handle:
  "map_of (handle n p m) =
     (let k = packet_key (fst p) (snd p) in
      if \<not> is_frame (snd p) \<or> (map_of m k = None \<and> n \<le> length m) then map_of m
      else (map_of m)(k \<mapsto> (case map_of m k of None \<Rightarrow> 0 | Some c \<Rightarrow> c) + packet_counts k p))"
  using hash.handle_packet_lookup [of n "fst p" "snd p" m]
    count_packet_add [of "fst p" "skb_len (snd p)" "the (map_of m (packet_key (fst p) (snd p)))"]
  by (auto simp: handle_eq hash_helpers_def Let_def packet_counts_def split: option.splits)

lemma map_of_handle_key:
  "map_of (handle n p m) k =
     (if is_frame (snd p) \<and> packet_key (fst p) (snd p) = k \<and> (map_of m k \<noteq> None \<or> length m < n)
      then Some ((case map_of m k of None \<Rightarrow> 0 | Some c \<Rightarrow> c) + packet_counts k p)
      else map_of m k)"
  by (auto simp: map_of_handle Let_def)

lemma packet_counts_other:
  "\<not> (is_frame (snd p) \<and> packet_key (fst p) (snd p) = k) \<Longrightarrow> packet_counts k p = 0"
  by (auto simp: packet_counts_def)

lemma map_of_handle_other:
  "\<not> (is_frame (snd p) \<and> packet_key (fst p) (snd p) = k) \<Longrightarrow> map_of (handle n p m) k = map_of m k"
  by (auto simp: map_of_handle_key)

lemma length_handle: "length m \<le> length (handle n p m)"
  by (auto simp: handle_eq handle_packet_def hash_helpers_def Let_def length_upsert_row
      split: option.splits)

lemma handle_run_exact:
  assumes "map_of m k = None \<or> map_of m k = Some acc" and "map_of m k = None \<longrightarrow> acc = 0 \<or> n \<le> length m"
    and "map_of (fold (handle n) ps m) k = Some c"
  shows "c = acc + (\<Sum>p \<leftarrow> ps. packet_counts k p)"
  using assms
proof (induction ps arbitrary: m acc)
  case (Cons p ps)
  let ?m = "handle n p m" and ?acc = "acc + packet_counts k p"
  have final: "map_of (fold (handle n) ps ?m) k = Some c" using Cons.prems(3) by simp
  have now: "map_of ?m k = None \<or> map_of ?m k = Some ?acc"
  proof (cases "is_frame (snd p) \<and> packet_key (fst p) (snd p) = k")
    case True
    with Cons.prems(1,2) show ?thesis by (auto simp: map_of_handle_key)
  next
    case False
    from Cons.prems(1) packet_counts_other [OF False] map_of_handle_other [OF False]
    show ?thesis by simp
  qed
  have full: "map_of ?m k = None \<longrightarrow> ?acc = 0 \<or> n \<le> length ?m"
  proof (cases "is_frame (snd p) \<and> packet_key (fst p) (snd p) = k")
    case True
    with length_handle [of m n p] show ?thesis by (auto simp: map_of_handle_key)
  next
    case False
    from Cons.prems(2) packet_counts_other [OF False] map_of_handle_other [OF False]
      length_handle [of m n p] show ?thesis by auto
  qed
  from Cons.IH [OF now full final] show ?case by (simp add: add.assoc)
qed auto

end
