(* ===== verification/Flush.thy ===== *)
theory Flush
  imports Traffic_Map Dates
begin

text \<open>
  The flush of \<open>internal/runtime/flush.go\<close>: for every entry of the traffic map, the delta since the
  entry's checkpoint is added to the all-time row and to the row of the current UTC day, and the
  checkpoint is moved to the raw counters, all in one transaction. The clock is an argument
  (\<open>now0\<close> when the flush starts, \<open>now1\<close> when it ends); \<open>io n\<close> says which database calls fail
  for the \<open>n\<close>-th entry.
\<close>

section \<open>The loop's state\<close>

record FlushLoop =
  fl_repo :: bool
  fl_trafficMap :: "TrafficMap option"
  fl_Interval :: int64
  fl_lastFlush :: time
  fl_flushErr :: "err option"

definition NewFlushLoop :: "bool \<Rightarrow> TrafficMap option \<Rightarrow> int \<Rightarrow> FlushLoop" where
  "NewFlushLoop repo trafficMap intervalSec =
     \<lparr>fl_repo = repo, fl_trafficMap = trafficMap,
      fl_Interval = word_of_int intervalSec * 1000000000, fl_lastFlush = 0, fl_flushErr = None\<rparr>"

section \<open>Persisting one entry\<close>

definition persistAll ::
  "db_io \<Rightarrow> RecordKey \<Rightarrow> string \<Rightarrow> TrafficCounters \<Rightarrow> TrafficCounter \<Rightarrow> database \<Rightarrow> unit result \<times> database" where
  "persistAll io key dateUTC delta raw =
     in_tx io ''beginning transaction: %w'' ''committing transaction: %w''
       (\<lambda>db. bind_result (wrap_fail ''upserting checkpoint: %w'' (exec_upsert_checkpoint io 1 key dateUTC raw db))
       (\<lambda>db. bind_result (wrap_fail ''upserting total: %w'' (exec_upsert_total io 2 key delta db))
       (\<lambda>db. wrap_fail ''upserting daily: %w'' (exec_upsert_daily io 3 key dateUTC delta db))))"

text \<open>The interface name is not part of the eBPF key: every flushed row has the empty name.\<close>

definition record_key :: "TrafficKey \<Rightarrow> RecordKey" where
  "record_key key = \<lparr>InterfaceName = [], Ifindex = key_Ifindex key, MAC = key_Mac key\<rparr>"

definition flush_delta :: "Checkpoint option \<Rightarrow> string \<Rightarrow> TrafficCounter \<Rightarrow> TrafficCounters" where
  "flush_delta cp today counters =
     (case cp of
        Some c \<Rightarrow> if cp_DateUTC c = today then counters - cp_last c else counters
      | None \<Rightarrow> counters)"

definition no_new_traffic :: "TrafficCounters \<Rightarrow> bool" where
  "no_new_traffic delta \<longleftrightarrow> Bytes delta = 0 \<and> Packets delta = 0 \<and>
     IngressBytes delta = 0 \<and> IngressPackets delta = 0 \<and>
     EgressBytes delta = 0 \<and> EgressPackets delta = 0"

definition key_args :: "TrafficKey \<Rightarrow> fmt_arg list" where
  "key_args key = [AInt (uint (key_Ifindex key)), ABytes (mac_bytes (key_Mac key))]"

text \<open>The body of the loop in \<open>Flush\<close>.\<close>

definition flush_entry ::
  "db_io \<Rightarrow> string \<Rightarrow> TrafficKey \<Rightarrow> TrafficCounter \<Rightarrow> database \<Rightarrow> unit result \<times> database" where
  "flush_entry io today key counters db =
     (let rk = record_key key in
      case GetCheckpoint io rk db of
        Inl e \<Rightarrow> (Fail (Errorf ''getting checkpoint for (%d, %x): %w'' (key_args key @ [AErr e])), db)
      | Inr cp \<Rightarrow>
          (let delta = flush_delta cp today counters in
           if no_new_traffic delta
           then (case UpsertCheckpoint io rk today counters db of
                   (Inl e, db') \<Rightarrow> (Fail (wrap_err ''updating checkpoint: %w'' e), db')
                 | (Inr _, db') \<Rightarrow> (Ok (), db'))
           else (case persistAll io rk today delta counters db of
                   (Inl e, db') \<Rightarrow> (Fail (Errorf ''persisting for (%d, %x): %w'' (key_args key @ [AErr e])), db')
                 | (Inr _, db') \<Rightarrow> (Ok (), db'))))"

section \<open>The flush\<close>

text \<open>\<open>None\<close> is an iteration that never ends, which a map that keeps changing could cause.\<close>

partial_function (option) flush_loop ::
  "bpf_handle \<Rightarrow> (nat \<Rightarrow> db_io) \<Rightarrow> string \<Rightarrow> nat \<Rightarrow> MapIterator \<Rightarrow> database \<Rightarrow> (unit result \<times> database) option" where
  "flush_loop m io today n iter db =
     (case Next m iter of
        (None, _) \<Rightarrow> Some (Ok (), db)
      | (Some (key, counters), iter') \<Rightarrow>
          (case flush_entry (io n) today key counters db of
             (Inl e, db') \<Rightarrow> Some (Fail e, db')
           | (Inr _, db') \<Rightarrow> flush_loop m io today (Suc n) iter' db'))"

declare flush_loop.simps [code]

definition Flush ::
  "(nat \<Rightarrow> db_io) \<Rightarrow> time \<Rightarrow> time \<Rightarrow> FlushLoop \<Rightarrow> database \<Rightarrow> (unit result \<times> FlushLoop \<times> database) option" where
  "Flush io now0 now1 f db =
     (case Option.bind (fl_trafficMap f) TrafficMap_Map of
        None \<Rightarrow> Some (Ok (), f, db)
      | Some m \<Rightarrow>
          (case flush_loop m io (CurrentDateUTC now0) 0 Iterate db of
             None \<Rightarrow> None
           | Some (Inl e, db') \<Rightarrow> Some (Fail e, f, db')
           | Some (Inr _, db') \<Rightarrow> Some (Ok (), f\<lparr>fl_lastFlush := now1, fl_flushErr := None\<rparr>, db')))"

text \<open>What \<open>runLoop\<close> does when the ticker fires: a failed flush is recorded and the loop goes on.\<close>

definition flush_tick ::
  "(nat \<Rightarrow> db_io) \<Rightarrow> time \<Rightarrow> time \<Rightarrow> FlushLoop \<Rightarrow> database \<Rightarrow> (FlushLoop \<times> database) option" where
  "flush_tick io now0 now1 f db =
     (case Flush io now0 now1 f db of
        None \<Rightarrow> None
      | Some (Inl e, f', db') \<Rightarrow> Some (f'\<lparr>fl_flushErr := Some e\<rparr>, db')
      | Some (Inr _, f', db') \<Rightarrow> Some (f', db'))"

section \<open>Starting and observing the loop\<close>

definition restoreCheckpoints :: "db_io \<Rightarrow> FlushLoop \<Rightarrow> database \<Rightarrow> unit result" where
  "restoreCheckpoints io f db =
     (if \<not> fl_repo f then Ok ()
      else case ListCheckpoints io [] db of
        Inl e \<Rightarrow> Fail (wrap_err ''listing checkpoints: %w'' e)
      | Inr _ \<Rightarrow> Ok ())"

text \<open>\<open>Start\<close> up to the point where it spawns the loop.\<close>

definition flush_Start :: "db_io \<Rightarrow> FlushLoop \<Rightarrow> database \<Rightarrow> unit result" where
  "flush_Start io f db = wrap_fail ''restoring checkpoints: %w'' (restoreCheckpoints io f db)"

definition LastFlush :: "FlushLoop \<Rightarrow> time" where
  "LastFlush f = fl_lastFlush f"

definition FlushError :: "FlushLoop \<Rightarrow> err option" where
  "FlushError f = fl_flushErr f"

text \<open>\<open>time.Since\<close> saturates at the ends of the \<open>int64\<close> range.\<close>

definition Since :: "time \<Rightarrow> time \<Rightarrow> int" where
  "Since now t = max (- (2 ^ 63)) (min (2 ^ 63 - 1) (now - t))"

definition IsStale :: "time \<Rightarrow> FlushLoop \<Rightarrow> bool" where
  "IsStale now f =
     (if IsZero (fl_lastFlush f) then True
      else Since now (fl_lastFlush f) > sint (fl_Interval f * 2))"

section \<open>One entry\<close>

lemma no_new_traffic_iff [simp]: "no_new_traffic d \<longleftrightarrow> d = 0"
  by (cases d) (simp add: no_new_traffic_def)

lemma record_key_inject [simp]: "record_key k = record_key k' \<longleftrightarrow> k = k'"
  by (auto simp: record_key_def)

text \<open>The three updates of a committed transaction.\<close>

definition persist :: "RecordKey \<Rightarrow> string \<Rightarrow> TrafficCounters \<Rightarrow> TrafficCounter \<Rightarrow> database \<Rightarrow> database" where
  "persist k d delta raw db =
     add_daily (k, d) (sql_of delta) (add_total k (sql_of delta) (put_checkpoint k d (sql_of raw) db))"

lemma persistAll_Ok:
  assumes "persistAll io k d delta raw db = (Ok (), db')"
  shows "storable delta \<and> storable raw \<and> db' = persist k d delta raw db"
  using assms unfolding persistAll_def
  by (auto dest!: in_tx_Ok exec_upserts_Ok simp: bind_result_Inr_iff wrap_fail_Ok_iff persist_def)

lemma persistAll_Fail: "persistAll io k d delta raw db = (Fail e, db') \<Longrightarrow> db' = db"
  unfolding persistAll_def by (rule in_tx_Fail)

lemma persistAll_no_faults:
  assumes "schema_ok db" and "storable delta" and "storable raw"
  shows "persistAll no_faults k d delta raw db = (Ok (), persist k d delta raw db)"
  using assms unfolding persistAll_def
  by (simp add: exec_upserts_no_fault no_faults_def [THEN fun_cong] persist_def)

lemma persistAll_unstorable:
  assumes "\<not> (storable delta \<and> storable raw)"
  shows "\<exists>e. persistAll io k d delta raw db = (Fail e, db)"
proof (cases "persistAll io k d delta raw db")
  case (Pair r db')
  then show ?thesis
    using assms by (cases r) (auto dest: persistAll_Ok persistAll_Fail)
qed

text \<open>The effect of an entry whose flush succeeds, given the checkpoint it read.\<close>

definition entry_effect ::
  "Checkpoint option \<Rightarrow> string \<Rightarrow> TrafficKey \<Rightarrow> TrafficCounter \<Rightarrow> database \<Rightarrow> database" where
  "entry_effect cp today key c db =
     (let delta = flush_delta cp today c in
      if delta = 0 then put_checkpoint (record_key key) today (sql_of c) db
      else persist (record_key key) today delta c db)"

lemma UpsertCheckpoint_Ok:
  "UpsertCheckpoint io k d c db = (Ok (), db') \<Longrightarrow> storable c \<and> db' = put_checkpoint k d (sql_of c) db"
  unfolding UpsertCheckpoint_def by (drule in_tx_Ok) (simp add: wrap_fail_Ok_iff exec_upserts_Ok)

lemma UpsertCheckpoint_Fail: "UpsertCheckpoint io k d c db = (Fail e, db') \<Longrightarrow> db' = db"
  unfolding UpsertCheckpoint_def by (rule in_tx_Fail)

lemma flush_entry_Fail: "flush_entry io today key c db = (Fail e, db') \<Longrightarrow> db' = db"
  by (auto simp: flush_entry_def Let_def dest: UpsertCheckpoint_Fail persistAll_Fail
      split: sum.splits if_splits prod.splits)

lemma flush_entry_Ok:
  assumes "flush_entry io today key c db = (Ok (), db')"
  obtains cp where "GetCheckpoint io (record_key key) db = Ok cp"
    and "storable c" and "storable (flush_delta cp today c)"
    and "db' = entry_effect cp today key c db"
  using assms
  by (auto simp: flush_entry_def entry_effect_def Let_def
      dest!: UpsertCheckpoint_Ok persistAll_Ok split: sum.splits if_splits prod.splits)

lemma flush_entry_no_faults:
  assumes "schema_ok db" and "GetCheckpoint no_faults (record_key key) db = Ok cp"
    and "storable c" and "storable (flush_delta cp today c)"
  shows "flush_entry no_faults today key c db = (Ok (), entry_effect cp today key c db)"
  using assms by (simp add: flush_entry_def entry_effect_def Let_def upsert_shapes persistAll_no_faults)

lemma flush_entry_cases:
  obtains (ok) db' where "flush_entry io today key c db = (Ok (), db')"
  | (fail) e where "flush_entry io today key c db = (Fail e, db)"
proof (cases "flush_entry io today key c db")
  case (Pair r db')
  then show ?thesis by (cases r) (use that flush_entry_Fail in auto)
qed

lemma schema_ok_entry_effect [simp]: "schema_ok (entry_effect cp d k c db) = schema_ok db"
  by (simp add: entry_effect_def persist_def Let_def)

section \<open>A map at rest: the loop is a recursion over its entries\<close>

fun flush_entries ::
  "(nat \<Rightarrow> db_io) \<Rightarrow> string \<Rightarrow> nat \<Rightarrow> (TrafficKey \<times> TrafficCounter) list \<Rightarrow> database \<Rightarrow> unit result \<times> database" where
  "flush_entries io today n [] db = (Ok (), db)"
| "flush_entries io today n ((key, counters) # rest) db =
     (case flush_entry (io n) today key counters db of
        (Inl e, db') \<Rightarrow> (Fail e, db')
      | (Inr _, db') \<Rightarrow> flush_entries io today (Suc n) rest db')"

text \<open>Induction over a run of the loop that ends.\<close>

lemma flush_loop_induct [consumes 1, case_names finished failed entry]:
  assumes run: "flush_loop m io today n mi db = Some (r, db')"
    and finished: "\<And>n mi mi' db. Next m mi = (None, mi') \<Longrightarrow> P n mi db (Ok ()) db"
    and failed: "\<And>n mi key c mi' db e db'. Next m mi = (Some (key, c), mi') \<Longrightarrow>
      flush_entry (io n) today key c db = (Fail e, db') \<Longrightarrow> P n mi db (Fail e) db'"
    and entry: "\<And>n mi key c mi' db db1 r db'. Next m mi = (Some (key, c), mi') \<Longrightarrow>
      flush_entry (io n) today key c db = (Ok (), db1) \<Longrightarrow> P (Suc n) mi' db1 r db' \<Longrightarrow> P n mi db r db'"
  shows "P n mi db r db'"
proof -
  let ?Q = "\<lambda>m' io' today' n mi db res. m' = m \<and> io' = io \<and> today' = today \<longrightarrow> P n mi db (fst res) (snd res)"
  have "?Q m io today n mi db (r, db')"
  proof (rule flush_loop.raw_induct [OF _ run, where P = ?Q], intro impI, elim conjE)
    fix f :: "bpf_handle \<Rightarrow> (nat \<Rightarrow> db_io) \<Rightarrow> string \<Rightarrow> nat \<Rightarrow> MapIterator \<Rightarrow> database \<Rightarrow>
      (unit result \<times> database) option"
      and m' io' today' n mi db res
    assume IH: "\<And>m io today n mi db res. f m io today n mi db = Some res \<Longrightarrow> ?Q m io today n mi db res"
      and eqs: "m' = m" "io' = io" "today' = today"
      and step: "(case Next m' mi of
          (None, _) \<Rightarrow> Some (Ok (), db)
        | (Some (key, c), mi') \<Rightarrow>
            (case flush_entry (io' n) today' key c db of
               (Inl e, db') \<Rightarrow> Some (Fail e, db')
             | (Inr _, db') \<Rightarrow> f m' io' today' (Suc n) mi' db')) = Some res"
    show "P n mi db (fst res) (snd res)"
    proof (cases "Next m mi")
      case (Pair o1 mi')
      show ?thesis
      proof (cases o1)
        case None
        with Pair step eqs finished show ?thesis by auto
      next
        case (Some p)
        then obtain key c where o1: "o1 = Some (key, c)" by (cases p) simp
        with Pair step eqs IH failed entry show ?thesis
          by (cases rule: flush_entry_cases [of "io n" today key c db]) fastforce+
      qed
    qed
  qed
  then show ?thesis by simp
qed

text \<open>
  What an iteration returns before it stops: \<open>reads m mi es mi'\<close> says that from \<open>mi\<close> on the iterator
  returns the entries \<open>es\<close> and then, as \<open>mi'\<close>, no more. Every handle has at most one such list, an
  iteration that never stops has none.
\<close>

inductive reads :: "bpf_handle \<Rightarrow> MapIterator \<Rightarrow> (TrafficKey \<times> TrafficCounter) list \<Rightarrow> MapIterator \<Rightarrow> bool" for m where
  stops: "Next m mi = (None, mi') \<Longrightarrow> reads m mi [] mi'"
| entry: "Next m mi = (Some p, mi1) \<Longrightarrow> reads m mi1 es mi' \<Longrightarrow> reads m mi (p # es) mi'"

lemma reads_flush_loop:
  "reads m mi es mi' \<Longrightarrow> flush_loop m io today n mi db = Some (flush_entries io today n es db)"
proof (induction arbitrary: n db rule: reads.induct)
  case (stops mi mi')
  then show ?case by (simp add: flush_loop.simps)
next
  case (entry mi p mi1 es mi')
  then show ?case
    by (cases p, subst flush_loop.simps) (simp split: prod.splits sum.splits)
qed

lemma reads_deterministic: "reads m mi es mi' \<Longrightarrow> reads m mi es' mi'' \<Longrightarrow> es = es' \<and> mi' = mi''"
proof (induction arbitrary: es' rule: reads.induct)
  case (stops mi mi')
  from stops.prems stops.hyps show ?case by cases simp_all
next
  case (entry mi p mi1 es mi')
  from entry.prems entry.hyps obtain es1 where "es' = p # es1" "reads m mi1 es1 mi''" by cases auto
  with entry.IH show ?case by simp
qed

text \<open>A flush that succeeds has come to the end of its iteration.\<close>

lemma flush_loop_reads:
  assumes "flush_loop m io today n mi db = Some (r, db')" and "r = Ok ()"
  shows "\<exists>es mi'. reads m mi es mi' \<and> flush_entries io today n es db = (Ok (), db')"
  using assms
proof (induction rule: flush_loop_induct)
  case (finished n mi mi' db)
  then show ?case by (intro exI [of _ "[]"]) (auto intro: reads.stops)
next
  case (entry n mi key c mi' db db1 r db')
  then obtain es mi'' where "reads m mi' es mi''" "flush_entries io today (Suc n) es db1 = (Ok (), db')" by blast
  with entry.hyps show ?case by (intro exI [of _ "(key, c) # es"]) (auto intro: reads.entry)
qed simp

definition with_map :: "FlushLoop \<Rightarrow> bpf_handle \<Rightarrow> FlushLoop" where
  "with_map f h = f\<lparr>fl_trafficMap := Some \<lparr>tm_m = Some h\<rparr>\<rparr>"

lemma Flush_Ok_reads:
  assumes "Flush io now0 now1 (with_map f m) db = Some (Ok (), f', db')"
  obtains es mi where "reads m Iterate es mi" and "flush_entries io (CurrentDateUTC now0) 0 es db = (Ok (), db')"
  using assms
  by (auto simp: Flush_def with_map_def TrafficMap_Map_def split: option.splits sum.splits
      dest!: flush_loop_reads)

lemma Flush_reads:
  assumes "reads m Iterate es mi"
  shows "Flush io now0 now1 (with_map f m) db =
    (case flush_entries io (CurrentDateUTC now0) 0 es db of
       (Inl e, db') \<Rightarrow> Some (Fail e, with_map f m, db')
     | (Inr _, db') \<Rightarrow> Some (Ok (), (with_map f m)\<lparr>fl_lastFlush := now1, fl_flushErr := None\<rparr>, db'))"
  by (simp add: Flush_def with_map_def TrafficMap_Map_def reads_flush_loop [OF assms] split: prod.splits sum.splits)

context stable_map
begin

lemma reads_at_entry: "at_entry rest mi \<Longrightarrow> \<exists>mi'. reads handle mi rest mi'"
proof (induction rest arbitrary: mi)
  case Nil
  then show ?case using at_entry_Nil by (blast intro: reads.stops)
next
  case (Cons p rest)
  then show ?case using at_entry_Cons by (cases p) (blast intro: reads.entry)
qed

lemma reads_entries: "\<exists>mi'. reads handle Iterate entries mi'"
  by (rule reads_at_entry) (rule at_entry_start)

lemma flush_loop_terminates:
  "flush_loop handle io today 0 Iterate db = Some (flush_entries io today 0 entries db)"
  using reads_entries reads_flush_loop by blast

end

section \<open>Properties of the flush\<close>

text \<open>C11. Persisting an entry is atomic: it either fails and leaves the database untouched, or it moves
  the checkpoint to the raw counters and adds the same delta to the all-time row and to the day's
  row, and changes no row of any other key or day.\<close>

theorem persistAll_atomic:
  "(\<exists>e. persistAll io k d delta raw db = (Fail e, db)) \<or>
   (\<exists>db'. persistAll io k d delta raw db = (Ok (), db') \<and>
      cp_cells db' = (cp_cells db)(k \<mapsto> (d, sql_of raw)) \<and>
      total_cells db' = (total_cells db)(k \<mapsto>
        (case total_cells db k of None \<Rightarrow> sql_of delta | Some r \<Rightarrow> map2_counters sql_add r (sql_of delta))) \<and>
      daily_cells db' = (daily_cells db)((k, d) \<mapsto>
        (case daily_cells db (k, d) of None \<Rightarrow> sql_of delta | Some r \<Rightarrow> map2_counters sql_add r (sql_of delta))))"
proof (cases "persistAll io k d delta raw db")
  case (Pair r db')
  show ?thesis
  proof (cases r)
    case (Inl e)
    with Pair persistAll_Fail show ?thesis by blast
  next
    case (Inr u)
    with Pair persistAll_Ok [of io k d delta raw db db']
    have "db' = persist k d delta raw db" by simp
    with Pair Inr show ?thesis by (simp add: persist_def fun_eq_iff)
  qed
qed

text \<open>C34. A flush cannot tell a failed read from the end of the map. Whatever error stops the iteration and
  wherever it stops, of a \<open>NextKey\<close> or of a \<open>Lookup\<close>, the entries read before it are flushed, and when
  these succeed the flush reports success, clears the stored error and records the time. Only an error
  of the database is reported.\<close>

theorem Flush_hides_iteration_error:
  assumes "fl_trafficMap f = Some \<lparr>tm_m = Some m\<rparr>" and "reads m Iterate es mi" and "iterErr mi = Some e"
  shows "Flush io now0 now1 f db =
    (case flush_entries io (CurrentDateUTC now0) 0 es db of
       (Inl e', db') \<Rightarrow> Some (Fail e', f, db')
     | (Inr _, db') \<Rightarrow> Some (Ok (), f\<lparr>fl_lastFlush := now1, fl_flushErr := None\<rparr>, db'))"
  using assms(1) reads_flush_loop [OF assms(2)]
  by (simp add: Flush_def TrafficMap_Map_def split: prod.splits sum.splits)

text \<open>A map of two entries whose second \<open>NextKey\<close> is interrupted: the second entry is never flushed.\<close>

definition interrupted_handle :: bpf_handle where
  "interrupted_handle = (list_handle two_entries)
     \<lparr>kernel_NextKey := (\<lambda>n prev. if n = 0 then kernel_next two_entries prev else Fail (ExtErr ''interrupted''))\<rparr>"

lemma interrupted_reads:
  "\<exists>mi. reads interrupted_handle Iterate [hd two_entries] mi \<and> iterErr mi = Some (ExtErr ''interrupted'')"
proof -
  let ?mi = "\<lparr>currKey = Some (fst (hd two_entries)), iterErr = None, calls = 2\<rparr>"
  have "Next interrupted_handle Iterate = (Some (hd two_entries), ?mi)"
    by (simp add: Next_def Iterate_def interrupted_handle_def two_entries_def list_handle_def kernel_next_def
        TrafficMap_NextKey_def TrafficMap_Lookup_def del: kernel_value.simps)
  moreover have "Next interrupted_handle ?mi = (None, ?mi\<lparr>iterErr := Some (ExtErr ''interrupted''), calls := 3\<rparr>)"
    by (simp add: Next_def interrupted_handle_def list_handle_def TrafficMap_NextKey_def)
  ultimately show ?thesis by (fastforce intro: reads.intros)
qed

lemma interrupted_flush:
  "flush_entries (\<lambda>_. no_faults) (CurrentDateUTC 5) 0 [hd two_entries] (snd (New no_faults empty_file)) =
     (Ok (), snd (flush_entry no_faults (CurrentDateUTC 5) (fst (hd two_entries)) (snd (hd two_entries))
       (snd (New no_faults empty_file))))"
  by code_simp

theorem Flush_hides_iteration_error_witness:
  "let f = NewFlushLoop True (Some \<lparr>tm_m = Some interrupted_handle\<rparr>) 10; db = snd (New no_faults empty_file) in
   \<exists>db'. Flush (\<lambda>_. no_faults) 5 7 f db = Some (Ok (), f\<lparr>fl_lastFlush := 7, fl_flushErr := None\<rparr>, db') \<and>
     db' = snd (flush_entry no_faults (CurrentDateUTC 5) (fst (hd two_entries)) (snd (hd two_entries)) db)"
proof -
  let ?f = "NewFlushLoop True (Some \<lparr>tm_m = Some interrupted_handle\<rparr>) 10"
  have "fl_trafficMap ?f = Some \<lparr>tm_m = Some interrupted_handle\<rparr>" by (simp add: NewFlushLoop_def)
  with interrupted_reads obtain mi where "reads interrupted_handle Iterate [hd two_entries] mi"
    and "iterErr mi = Some (ExtErr ''interrupted'')" by blast
  from Flush_hides_iteration_error [OF \<open>fl_trafficMap ?f = _\<close> this, of "\<lambda>_. no_faults" 5 7] interrupted_flush
  show ?thesis by (simp add: Let_def)
qed

text \<open>Without a traffic map a flush does nothing and reports success: the time of the last flush
  stays unset, so a loop that never had a map stays stale for ever.\<close>

lemma Flush_without_map_stays_stale:
  assumes "Option.bind (fl_trafficMap f) TrafficMap_Map = None" and "IsZero (LastFlush f)"
  shows "Flush io now0 now1 f db = Some (Ok (), f, db) \<and> IsStale now f"
  using assms by (simp_all add: Flush_def IsStale_def LastFlush_def)

lemma sint_interval:
  assumes "0 \<le> n" and "n < 2 ^ 63"
  shows "sint (word_of_int n :: int64) = n"
  using assms by (simp add: int_word_sint)

text \<open>C37. For intervals up to 4611686018 seconds a flush loop that has flushed is stale exactly when
  more than twice the interval has passed since.\<close>

theorem IsStale_exact:
  assumes "0 < sec" and "sec \<le> 4611686018" and "t \<noteq> 0" and "\<bar>now - t\<bar> < 2 ^ 63"
  shows "IsStale now ((NewFlushLoop repo tm sec)\<lparr>fl_lastFlush := t\<rparr>) \<longleftrightarrow>
    now - t > 2 * (sec * 1000000000)"
proof -
  have "fl_Interval (NewFlushLoop repo tm sec) * 2 = word_of_int (2 * (sec * 1000000000))"
    by (simp add: NewFlushLoop_def)
  with assms sint_interval [of "2 * (sec * 1000000000)"]
  have "sint (fl_Interval (NewFlushLoop repo tm sec) * 2) = 2 * (sec * 1000000000)" by simp
  moreover have "Since now t = now - t"
    using assms(4) by (simp add: Since_def min_def max_def abs_less_iff)
  ultimately show ?thesis
    using assms(3) by (simp add: IsStale_def IsZero_def NewFlushLoop_def)
qed

theorem IsStale_exact_witness:
  "IsStale 30000000001 ((NewFlushLoop True None 10)\<lparr>fl_lastFlush := 10000000000\<rparr>) \<and>
   \<not> IsStale 30000000000 ((NewFlushLoop True None 10)\<lparr>fl_lastFlush := 10000000000\<rparr>)"
  using IsStale_exact [of 10 10000000000 30000000001 True None]
    IsStale_exact [of 10 10000000000 30000000000 True None] by simp

text \<open>A larger interval that the configuration accepts overflows the doubled duration: with
  4611686019 seconds the loop is stale at the very moment it has flushed.\<close>

lemma IsStale_overflow:
  "IsStale t ((NewFlushLoop repo tm 4611686019)\<lparr>fl_lastFlush := t\<rparr>)"
proof -
  have "sint (fl_Interval (NewFlushLoop repo tm 4611686019) * 2) < 0"
    by (simp add: NewFlushLoop_def)
  then show ?thesis by (simp add: IsStale_def Since_def NewFlushLoop_def)
qed

end
