(* ===== verification/Attachment.thy ===== *)
theory Attachment
  imports Traffic_Map
begin

text \<open>
  The attachment manager of \<open>internal/ebpf/attachment.go\<close>: per interface and direction it keeps
  whether a classifier is attached and the link that holds it. Attaching, closing a link and resolving
  an interface name are calls of \<open>cilium/ebpf\<close> and of the operating system; they are the argument
  \<open>K\<close>, functions on a state of the outside world \<open>'w\<close> that the operations thread through.
\<close>

section \<open>Data\<close>

type_synonym link = nat
type_synonym program = nat

text \<open>\<open>StateNone\<close> is the zero value of the Go string type \<open>AttachState\<close>.\<close>

datatype AttachState = StateNone | StateDetached | StateAttached | StateFailed

record AttachResult =
  ar_IfaceName :: string
  ar_Ifindex :: int
  ar_Direction :: direction
  ar_State :: AttachState
  ar_Error :: "err option"

record AttachOptions =
  opt_Ingress :: "program option"
  opt_Egress :: "program option"

record DirectionState =
  ds_State :: AttachState
  ds_Link :: "link option"
  ds_ErrorMsg :: "err option"

text \<open>
  The pointers to the two direction states are never nil: every \<open>IfaceState\<close> is created with both,
  and they are only replaced by fresh states.
\<close>

record IfaceState =
  is_Name :: string
  is_Ifindex :: int
  is_Ingress :: DirectionState
  is_Egress :: DirectionState

record Collection =
  coll_ingress :: "program option"
  coll_egress :: "program option"

record AttachmentManager =
  ifaceStates :: "string \<rightharpoonup> IfaceState"
  collection :: "Collection option"
  am_trafficMap :: "TrafficMap option"

record 'w tcx =
  InterfaceByName :: "string \<Rightarrow> 'w \<Rightarrow> int result \<times> 'w"
  AttachTCX :: "int \<Rightarrow> program \<Rightarrow> direction \<Rightarrow> 'w \<Rightarrow> link result \<times> 'w"
  CloseLink :: "link \<Rightarrow> 'w \<Rightarrow> unit result \<times> 'w"

section \<open>The state of a direction\<close>

definition zero_direction :: DirectionState where
  "zero_direction = \<lparr>ds_State = StateNone, ds_Link = None, ds_ErrorMsg = None\<rparr>"

definition new_iface :: "string \<Rightarrow> IfaceState" where
  "new_iface name =
     \<lparr>is_Name = name, is_Ifindex = 0, is_Ingress = zero_direction, is_Egress = zero_direction\<rparr>"

definition NewAttachmentManager :: AttachmentManager where
  "NewAttachmentManager = \<lparr>ifaceStates = (\<lambda>_. None), collection = None, am_trafficMap = None\<rparr>"

definition iface_or_new :: "AttachmentManager \<Rightarrow> string \<Rightarrow> IfaceState" where
  "iface_or_new m name = (case ifaceStates m name of None \<Rightarrow> new_iface name | Some s \<Rightarrow> s)"

definition put_direction :: "direction \<Rightarrow> DirectionState \<Rightarrow> IfaceState \<Rightarrow> IfaceState" where
  "put_direction dir ds s =
     (case dir of Ingress \<Rightarrow> s\<lparr>is_Ingress := ds\<rparr> | Egress \<Rightarrow> s\<lparr>is_Egress := ds\<rparr>)"

definition get_direction :: "direction \<Rightarrow> IfaceState \<Rightarrow> DirectionState" where
  "get_direction dir s = (case dir of Ingress \<Rightarrow> is_Ingress s | Egress \<Rightarrow> is_Egress s)"

definition setDirectionState ::
  "string \<Rightarrow> direction \<Rightarrow> DirectionState \<Rightarrow> AttachmentManager \<Rightarrow> AttachmentManager" where
  "setDirectionState name dir ds m =
     m\<lparr>ifaceStates := (ifaceStates m)(name \<mapsto> put_direction dir ds (iface_or_new m name))\<rparr>"

text \<open>Unlike \<open>setDirectionState\<close> this keeps the old link, unless the new state is detached.\<close>

definition setIfaceState ::
  "string \<Rightarrow> direction \<Rightarrow> AttachState \<Rightarrow> err option \<Rightarrow> AttachmentManager \<Rightarrow> AttachmentManager" where
  "setIfaceState name dir state errorMsg m =
     (let s = iface_or_new m name;
          link = (if state = StateDetached then None else ds_Link (get_direction dir s))
      in m\<lparr>ifaceStates := (ifaceStates m)(name \<mapsto>
           put_direction dir \<lparr>ds_State = state, ds_Link = link, ds_ErrorMsg = errorMsg\<rparr> s)\<rparr>)"

definition getDirectionState :: "AttachmentManager \<Rightarrow> string \<Rightarrow> direction \<Rightarrow> DirectionState option" where
  "getDirectionState m name dir = map_option (get_direction dir) (ifaceStates m name)"

section \<open>Attaching\<close>

definition resolveIfindex :: "'w tcx \<Rightarrow> string \<Rightarrow> 'w \<Rightarrow> int result \<times> 'w" where
  "resolveIfindex K name w =
     (case InterfaceByName K name w of
        (Inl e, w') \<Rightarrow> (Fail (Errorf ''interface %q not found: %w'' [AStr name, AErr e]), w')
      | (Inr idx, w') \<Rightarrow> (Ok idx, w'))"

definition attachDirection ::
  "'w tcx \<Rightarrow> string \<Rightarrow> int \<Rightarrow> direction \<Rightarrow> program \<Rightarrow> AttachmentManager \<Rightarrow> 'w
     \<Rightarrow> AttachResult \<times> AttachmentManager \<times> 'w" where
  "attachDirection K name ifindex dir prog m w =
     (let result = \<lparr>ar_IfaceName = name, ar_Ifindex = ifindex, ar_Direction = dir,
                    ar_State = StateNone, ar_Error = None\<rparr>
      in if map_option ds_State (getDirectionState m name dir) = Some StateAttached
         then (result\<lparr>ar_State := StateAttached\<rparr>, m, w)
         else case AttachTCX K ifindex prog dir w of
           (Inl e, w') \<Rightarrow>
             (result\<lparr>ar_State := StateFailed, ar_Error := Some e\<rparr>,
              setDirectionState name dir
                \<lparr>ds_State = StateFailed, ds_Link = None, ds_ErrorMsg = Some e\<rparr> m, w')
         | (Inr lnk, w') \<Rightarrow>
             (result\<lparr>ar_State := StateAttached\<rparr>,
              setDirectionState name dir
                \<lparr>ds_State = StateAttached, ds_Link = Some lnk, ds_ErrorMsg = None\<rparr> m, w'))"

definition attach_if ::
  "'w tcx \<Rightarrow> string \<Rightarrow> int \<Rightarrow> direction \<Rightarrow> program option \<Rightarrow> AttachmentManager \<Rightarrow> 'w
     \<Rightarrow> AttachResult list \<times> AttachmentManager \<times> 'w" where
  "attach_if K name ifindex dir prog m w =
     (case prog of
        None \<Rightarrow> ([], m, w)
      | Some p \<Rightarrow> (case attachDirection K name ifindex dir p m w of (res, m', w') \<Rightarrow> ([res], m', w')))"

definition AttachIface ::
  "'w tcx \<Rightarrow> string \<Rightarrow> AttachOptions \<Rightarrow> AttachmentManager \<Rightarrow> 'w
     \<Rightarrow> AttachResult list result \<times> AttachmentManager \<times> 'w" where
  "AttachIface K name opts m w =
     (case resolveIfindex K name w of
        (Inl e, w') \<Rightarrow>
          (Fail (Errorf ''failed to resolve ifindex for %q: %w'' [AStr name, AErr e]),
           setIfaceState name Egress StateFailed (Some e)
             (setIfaceState name Ingress StateFailed (Some e) m), w')
      | (Inr ifidx, w') \<Rightarrow>
          (case attach_if K name ifidx Ingress (opt_Ingress opts) m w' of
             (res1, m1, w1) \<Rightarrow>
               (case attach_if K name ifidx Egress (opt_Egress opts) m1 w1 of
                  (res2, m2, w2) \<Rightarrow> (Ok (res1 @ res2), m2, w2))))"

section \<open>Detaching\<close>

definition detachDirection ::
  "'w tcx \<Rightarrow> string \<Rightarrow> direction \<Rightarrow> AttachmentManager \<Rightarrow> 'w \<Rightarrow> AttachResult \<times> AttachmentManager \<times> 'w" where
  "detachDirection K name dir m w =
     (let result = \<lparr>ar_IfaceName = name, ar_Ifindex = 0, ar_Direction = dir,
                    ar_State = StateNone, ar_Error = None\<rparr>
      in case getDirectionState m name dir of
           None \<Rightarrow> (result\<lparr>ar_State := StateDetached\<rparr>, m, w)
         | Some ds \<Rightarrow>
             (case ds_Link ds of
                None \<Rightarrow> (result\<lparr>ar_State := StateDetached\<rparr>, m, w)
              | Some lnk \<Rightarrow>
                  if ds_State ds \<noteq> StateAttached then (result\<lparr>ar_State := StateDetached\<rparr>, m, w)
                  else case CloseLink K lnk w of
                    (Inl e, w') \<Rightarrow>
                      (result\<lparr>ar_State := StateFailed, ar_Error := Some e\<rparr>,
                       setDirectionState name dir
                         \<lparr>ds_State = StateFailed, ds_Link = None, ds_ErrorMsg = Some e\<rparr> m, w')
                  | (Inr _, w') \<Rightarrow>
                      (result\<lparr>ar_State := StateDetached\<rparr>,
                       setDirectionState name dir
                         \<lparr>ds_State = StateDetached, ds_Link = None, ds_ErrorMsg = None\<rparr> m, w')))"

definition DetachIface ::
  "'w tcx \<Rightarrow> string \<Rightarrow> AttachmentManager \<Rightarrow> 'w \<Rightarrow> AttachResult list \<times> AttachmentManager \<times> 'w" where
  "DetachIface K name m w =
     (case detachDirection K name Ingress m w of
        (res1, m1, w1) \<Rightarrow>
          (case detachDirection K name Egress m1 w1 of (res2, m2, w2) \<Rightarrow> ([res1, res2], m2, w2)))"

text \<open>Go ranges over a map in an order it chooses: \<open>order\<close> lists the keys in that order.\<close>

fun DetachAll ::
  "'w tcx \<Rightarrow> string list \<Rightarrow> AttachmentManager \<Rightarrow> 'w \<Rightarrow> AttachResult list \<times> AttachmentManager \<times> 'w" where
  "DetachAll K [] m w = ([], m, w)"
| "DetachAll K (name # order) m w =
     (case DetachIface K name m w of
        (res, m1, w1) \<Rightarrow> (case DetachAll K order m1 w1 of (rest, m2, w2) \<Rightarrow> (res @ rest, m2, w2)))"

definition map_order :: "AttachmentManager \<Rightarrow> string list \<Rightarrow> bool" where
  "map_order m order \<longleftrightarrow> distinct order \<and> set order = dom (ifaceStates m)"

section \<open>Queries\<close>

definition GetIfaceState :: "AttachmentManager \<Rightarrow> string \<Rightarrow> IfaceState option" where
  "GetIfaceState m name = ifaceStates m name"

definition GetAllIfaceStates :: "AttachmentManager \<Rightarrow> string \<rightharpoonup> IfaceState" where
  "GetAllIfaceStates m = ifaceStates m"

definition attached_in :: "direction \<Rightarrow> IfaceState \<Rightarrow> bool" where
  "attached_in dir s \<longleftrightarrow> ds_State (get_direction dir s) = StateAttached"

definition IsIfaceAttached :: "AttachmentManager \<Rightarrow> string \<Rightarrow> bool" where
  "IsIfaceAttached m name =
     (case GetIfaceState m name of
        None \<Rightarrow> False
      | Some s \<Rightarrow> attached_in Ingress s \<or> attached_in Egress s)"

definition GetTrafficMap :: "AttachmentManager \<Rightarrow> TrafficMap option" where
  "GetTrafficMap m = am_trafficMap m"

definition SetCollection ::
  "Collection option \<Rightarrow> TrafficMap option \<Rightarrow> AttachmentManager \<Rightarrow> AttachmentManager" where
  "SetCollection coll tm m = m\<lparr>collection := coll, am_trafficMap := tm\<rparr>"

definition GetIngress :: "AttachmentManager \<Rightarrow> program option" where
  "GetIngress m = Option.bind (collection m) coll_ingress"

definition GetEgress :: "AttachmentManager \<Rightarrow> program option" where
  "GetEgress m = Option.bind (collection m) coll_egress"

definition IsMockMode :: "AttachmentManager \<Rightarrow> bool" where
  "IsMockMode m =
     (case collection m of
        None \<Rightarrow> True
      | Some c \<Rightarrow> coll_ingress c = None \<and> coll_egress c = None)"

definition GetAttachedInterfaces :: "string list \<Rightarrow> AttachmentManager \<Rightarrow> string list" where
  "GetAttachedInterfaces order m =
     filter (\<lambda>name. case ifaceStates m name of None \<Rightarrow> False | Some s \<Rightarrow> attached_in Ingress s) order"

definition failed_in :: "direction \<Rightarrow> IfaceState \<Rightarrow> bool" where
  "failed_in dir s \<longleftrightarrow> ds_State (get_direction dir s) = StateFailed"

definition GetFailedInterfaces :: "string list \<Rightarrow> AttachmentManager \<Rightarrow> string list" where
  "GetFailedInterfaces order m =
     filter (\<lambda>name. case ifaceStates m name of None \<Rightarrow> False
                    | Some s \<Rightarrow> failed_in Ingress s \<or> failed_in Egress s) order"

section \<open>The manager as two functions of interface and direction\<close>

definition state_at :: "AttachmentManager \<Rightarrow> string \<times> direction \<Rightarrow> AttachState" where
  "state_at m p = (case getDirectionState m (fst p) (snd p) of None \<Rightarrow> StateNone | Some ds \<Rightarrow> ds_State ds)"

definition link_at :: "AttachmentManager \<Rightarrow> string \<times> direction \<rightharpoonup> link" where
  "link_at m p = Option.bind (getDirectionState m (fst p) (snd p)) ds_Link"

lemma get_put_direction [simp]:
  "get_direction d (put_direction d' ds s) = (if d = d' then ds else get_direction d s)"
  by (cases d; cases d') (simp_all add: get_direction_def put_direction_def)

lemma new_iface_directions [simp]: "get_direction d (new_iface n) = zero_direction"
  by (cases d) (simp_all add: get_direction_def new_iface_def)

lemma at_setDirectionState [simp]:
  "state_at (setDirectionState n d ds m) = (state_at m)((n, d) := ds_State ds)"
  "link_at (setDirectionState n d ds m) = (link_at m)((n, d) := ds_Link ds)"
  by (auto simp: fun_eq_iff state_at_def link_at_def getDirectionState_def setDirectionState_def
      iface_or_new_def zero_direction_def split: option.splits)

lemma at_setIfaceState:
  "state_at (setIfaceState n d st e m) = (state_at m)((n, d) := st)"
  "st \<noteq> StateDetached \<Longrightarrow> link_at (setIfaceState n d st e m) = link_at m"
  by (auto simp: fun_eq_iff state_at_def link_at_def getDirectionState_def setIfaceState_def Let_def
      iface_or_new_def zero_direction_def split: option.splits)

lemma dom_setDirectionState [simp]:
  "dom (ifaceStates (setDirectionState n d ds m)) = insert n (dom (ifaceStates m))"
  by (simp add: setDirectionState_def)

lemma at_unknown: "n \<notin> dom (ifaceStates m) \<Longrightarrow> link_at m (n, d) = None"
  by (simp add: link_at_def getDirectionState_def domIff)

lemma attached_in_state_at:
  "ifaceStates m n = Some s \<Longrightarrow> attached_in d s \<longleftrightarrow> state_at m (n, d) = StateAttached"
  by (simp add: attached_in_def state_at_def getDirectionState_def)

lemma IsIfaceAttached_state_at:
  "IsIfaceAttached m n \<longleftrightarrow> (\<exists>d. state_at m (n, d) = StateAttached)"
proof (cases "ifaceStates m n")
  case None
  then show ?thesis by (simp add: IsIfaceAttached_def GetIfaceState_def state_at_def getDirectionState_def)
next
  case (Some s)
  then show ?thesis
    by (auto simp: IsIfaceAttached_def GetIfaceState_def attached_in_state_at)
      (metis direction.exhaust)
qed

lemma attachDirection_at:
  "attachDirection K n i d p m w =
     (let result = \<lparr>ar_IfaceName = n, ar_Ifindex = i, ar_Direction = d, ar_State = StateNone, ar_Error = None\<rparr>
      in if state_at m (n, d) = StateAttached then (result\<lparr>ar_State := StateAttached\<rparr>, m, w)
         else case AttachTCX K i p d w of
           (Inl e, w') \<Rightarrow> (result\<lparr>ar_State := StateFailed, ar_Error := Some e\<rparr>,
              setDirectionState n d \<lparr>ds_State = StateFailed, ds_Link = None, ds_ErrorMsg = Some e\<rparr> m, w')
         | (Inr lnk, w') \<Rightarrow> (result\<lparr>ar_State := StateAttached\<rparr>,
              setDirectionState n d \<lparr>ds_State = StateAttached, ds_Link = Some lnk, ds_ErrorMsg = None\<rparr> m, w'))"
  by (auto simp: attachDirection_def state_at_def Let_def split: option.splits)

lemma detachDirection_at:
  "detachDirection K n d m w =
     (let result = \<lparr>ar_IfaceName = n, ar_Ifindex = 0, ar_Direction = d, ar_State = StateNone, ar_Error = None\<rparr>
      in case link_at m (n, d) of
           None \<Rightarrow> (result\<lparr>ar_State := StateDetached\<rparr>, m, w)
         | Some lnk \<Rightarrow>
             if state_at m (n, d) \<noteq> StateAttached then (result\<lparr>ar_State := StateDetached\<rparr>, m, w)
             else case CloseLink K lnk w of
               (Inl e, w') \<Rightarrow> (result\<lparr>ar_State := StateFailed, ar_Error := Some e\<rparr>,
                  setDirectionState n d \<lparr>ds_State = StateFailed, ds_Link = None, ds_ErrorMsg = Some e\<rparr> m, w')
             | (Inr _, w') \<Rightarrow> (result\<lparr>ar_State := StateDetached\<rparr>,
                  setDirectionState n d \<lparr>ds_State = StateDetached, ds_Link = None, ds_ErrorMsg = None\<rparr> m, w'))"
  by (simp add: detachDirection_def state_at_def link_at_def Let_def split: option.splits)

section \<open>Links are neither leaked nor lost\<close>

text \<open>
  The manager accounts for a set of links when each of them stands in exactly one slot, no other link
  does, and a slot holds a link exactly when it is attached.
\<close>

definition accounted :: "link set \<Rightarrow> AttachmentManager \<Rightarrow> bool" where
  "accounted L m \<longleftrightarrow> ran (link_at m) = L \<and> inj_on (link_at m) (dom (link_at m)) \<and>
     (\<forall>p. link_at m p \<noteq> None \<longleftrightarrow> state_at m p = StateAttached)"

lemma accounted_free: "accounted L m \<Longrightarrow> state_at m p \<noteq> StateAttached \<Longrightarrow> link_at m p = None"
  unfolding accounted_def by blast

lemma inj_map_clear:
  fixes f :: "'k \<rightharpoonup> 'l"
  assumes "inj_on f (dom f)"
  shows "ran (f(p := None)) = ran f - set_option (f p)"
    and "inj_on (f(p := None)) (dom (f(p := None)))"
proof -
  have inj: "f a = Some x \<Longrightarrow> f b = Some x \<Longrightarrow> a = b" for a b x
    using assms by (metis domI inj_onD)
  show "ran (f(p := None)) = ran f - set_option (f p)"
    by (auto simp: ran_def dest: inj)
  show "inj_on (f(p := None)) (dom (f(p := None)))"
    by (auto simp: inj_on_def intro: inj)
qed

lemma inj_map_add:
  fixes f :: "'k \<rightharpoonup> 'l"
  assumes "inj_on f (dom f)" and "l \<notin> ran f"
  shows "inj_on (f(p \<mapsto> l)) (dom (f(p \<mapsto> l)))"
proof (rule inj_onI)
  fix a b
  assume "a \<in> dom (f(p \<mapsto> l))" "b \<in> dom (f(p \<mapsto> l))" "(f(p \<mapsto> l)) a = (f(p \<mapsto> l)) b"
  with assms show "a = b"
    by (cases "a = p"; cases "b = p") (auto simp: ran_def dest: inj_onD [of f "dom f" a b])
qed

lemma accounted_clear:
  assumes "accounted L m" and "link_at m' = (link_at m)(p := None)"
    and "state_at m' = (state_at m)(p := st)" and "st \<noteq> StateAttached" and "link_at m p = lo"
  shows "accounted (L - set_option lo) m'"
  using assms inj_map_clear [of "link_at m" p] by (simp add: accounted_def)

lemma accounted_add:
  assumes "accounted L m" and "link_at m p = None" and "l \<notin> L"
    and "link_at m' = (link_at m)(p \<mapsto> l)" and "state_at m' = (state_at m)(p := StateAttached)"
  shows "accounted (insert l L) m'"
  using assms inj_map_add [of "link_at m" l p] by (simp add: accounted_def ran_map_upd)

text \<open>
  What the manager relies on outside: a successful attachment makes a link that was not live, a
  successful close ends that link's life, and nothing else changes which links are live.
\<close>

locale tcx_api =
  fixes K :: "'w tcx" and live :: "'w \<Rightarrow> link set"
  assumes live_resolve: "InterfaceByName K n w = (r, w') \<Longrightarrow> live w' = live w"
    and live_attach: "AttachTCX K i p d w = (Ok l, w') \<Longrightarrow> l \<notin> live w \<and> live w' = insert l (live w)"
    and live_attach_fail: "AttachTCX K i p d w = (Fail e, w') \<Longrightarrow> live w' = live w"
    and live_close: "CloseLink K l w = (Ok (), w') \<Longrightarrow> live w' = live w - {l}"
begin

lemma accounted_attachDirection:
  assumes "accounted (live w) m" and "attachDirection K n i d p m w = (res, m', w')"
  shows "accounted (live w') m'"
proof (cases "state_at m (n, d) = StateAttached")
  case True
  with assms show ?thesis by (simp add: attachDirection_at)
next
  case False
  note free = accounted_free [OF assms(1) False]
  obtain r w1 where call: "AttachTCX K i p d w = (r, w1)" by fastforce
  show ?thesis
  proof (cases r)
    case (Inl e)
    with call False assms(2) have "w' = w1" "link_at m' = (link_at m)((n, d) := None)"
      "state_at m' = (state_at m)((n, d) := StateFailed)"
      by (auto simp: attachDirection_at Let_def)
    with accounted_clear [OF assms(1), of m' "(n, d)"] live_attach_fail call Inl free show ?thesis by simp
  next
    case (Inr l)
    with call False assms(2) have "w' = w1" "link_at m' = (link_at m)((n, d) \<mapsto> l)"
      "state_at m' = (state_at m)((n, d) := StateAttached)"
      by (auto simp: attachDirection_at Let_def)
    with accounted_add [OF assms(1) free] live_attach call Inr show ?thesis by simp
  qed
qed

lemma accounted_attach_if:
  "accounted (live w) m \<Longrightarrow> attach_if K n i d p m w = (res, m', w') \<Longrightarrow> accounted (live w') m'"
  by (auto simp: attach_if_def intro: accounted_attachDirection split: option.splits prod.splits)

text \<open>Attaching keeps the account, unless the name of an attached interface no longer resolves.\<close>

lemma accounted_AttachIface:
  assumes "accounted (live w) m" and "AttachIface K n opts m w = (r, m', w')"
    and "IsIfaceAttached m n \<Longrightarrow> \<exists>res. r = Ok res"
  shows "accounted (live w') m'"
proof -
  obtain ri w1 where call: "InterfaceByName K n w = (ri, w1)" by fastforce
  have w1: "live w1 = live w" using call by (rule live_resolve)
  show ?thesis
  proof (cases ri)
    case (Inl e)
    with call assms(2) have w': "w' = w1" and r: "\<And>res. r \<noteq> Ok res"
      and m': "link_at m' = link_at m"
        "state_at m' = (state_at m)((n, Ingress) := StateFailed, (n, Egress) := StateFailed)"
      by (auto simp: AttachIface_def resolveIfindex_def at_setIfaceState)
    from r assms(3) have "\<not> IsIfaceAttached m n" by blast
    then have "state_at m (n, d) \<noteq> StateAttached" for d by (auto simp: IsIfaceAttached_state_at)
    with assms(1) m' w' w1 show ?thesis by (auto simp: accounted_def)
  next
    case (Inr idx)
    with call assms(2) obtain res1 m1 w2 res2 where
      "attach_if K n idx Ingress (opt_Ingress opts) m w1 = (res1, m1, w2)"
      "attach_if K n idx Egress (opt_Egress opts) m1 w2 = (res2, m', w')"
      by (auto simp: AttachIface_def resolveIfindex_def split: prod.splits)
    with assms(1) w1 accounted_attach_if show ?thesis by metis
  qed
qed

lemma accounted_detachDirection:
  assumes "accounted (live w) m" and "detachDirection K n d m w = (res, m', w')"
    and "ar_State res \<noteq> StateFailed"
  shows "accounted (live w') m'"
    and "link_at m' = (link_at m)((n, d) := None)"
    and "ifaceStates m n \<noteq> None \<Longrightarrow> dom (ifaceStates m') = dom (ifaceStates m)"
proof -
  consider (nothing) "link_at m (n, d) = None" "m' = m" "w' = w"
    | (closed) l where "link_at m (n, d) = Some l" "CloseLink K l w = (Ok (), w')"
      "m' = setDirectionState n d \<lparr>ds_State = StateDetached, ds_Link = None, ds_ErrorMsg = None\<rparr> m"
  proof (cases "link_at m (n, d)")
    case None
    with assms(2) have "m' = m" "w' = w" by (auto simp: detachDirection_at Let_def)
    with None that show ?thesis by blast
  next
    case (Some l)
    with accounted_free [OF assms(1), of "(n, d)"] have "state_at m (n, d) = StateAttached" by force
    moreover obtain r w1 where "CloseLink K l w = (r, w1)" by fastforce
    ultimately show ?thesis
      using Some assms(2,3) that by (cases r) (auto simp: detachDirection_at Let_def)
  qed
  note shape = this
  from shape show "link_at m' = (link_at m)((n, d) := None)"
    by cases (simp_all add: fun_upd_idem)
  from shape show "ifaceStates m n \<noteq> None \<Longrightarrow> dom (ifaceStates m') = dom (ifaceStates m)"
    by cases auto
  from shape show "accounted (live w') m'"
  proof cases
    case closed
    with accounted_clear [OF assms(1), of m' "(n, d)" StateDetached "Some l"] live_close
    show ?thesis by simp
  qed (use assms(1) in simp)
qed

lemma accounted_DetachAll:
  assumes "accounted (live w) m" and "DetachAll K order m w = (results, m', w')"
    and "\<forall>res \<in> set results. ar_State res \<noteq> StateFailed"
  shows "accounted (live w') m' \<and>
    link_at m' = (\<lambda>(n, d). if n \<in> set order then None else link_at m (n, d))"
  using assms
proof (induction order arbitrary: m w results)
  case Nil
  then show ?case by simp
next
  case (Cons n order)
  obtain r1 m1 w1 where d1: "detachDirection K n Ingress m w = (r1, m1, w1)" by (cases "detachDirection K n Ingress m w")
  obtain r2 m2 w2 where d2: "detachDirection K n Egress m1 w1 = (r2, m2, w2)" by (cases "detachDirection K n Egress m1 w1")
  obtain rest m3 w3 where da: "DetachAll K order m2 w2 = (rest, m3, w3)" by (cases "DetachAll K order m2 w2")
  from Cons.prems(2) d1 d2 da have fin: "results = r1 # r2 # rest" "m' = m3" "w' = w3"
    by (auto simp: DetachIface_def)
  with Cons.prems(3) have ok: "ar_State r1 \<noteq> StateFailed" "ar_State r2 \<noteq> StateFailed"
    "\<forall>res \<in> set rest. ar_State res \<noteq> StateFailed" by simp_all
  note a1 = accounted_detachDirection(1,2) [OF Cons.prems(1) d1 ok(1)]
  note a2 = accounted_detachDirection(1,2) [OF a1(1) d2 ok(2)]
  have "link_at m2 (n', d) = (if n' = n then None else link_at m (n', d))" for n' d
    using a1(2) a2(2) by (cases d) auto
  with Cons.IH [OF a2(1) da [folded fin(2,3)] ok(3)] show ?case by (auto simp: fun_eq_iff)
qed

lemma DetachAll_releases:
  assumes "accounted (live w) m" and "map_order m order" and "DetachAll K order m w = (results, m', w')"
    and "\<forall>res \<in> set results. ar_State res \<noteq> StateFailed"
  shows "live w' = {} \<and> \<not> IsIfaceAttached m' n"
proof -
  from accounted_DetachAll [OF assms(1,3,4)] assms(2)
  have acc: "accounted (live w') m'" and "link_at m' p = None" for p
    by (auto simp: map_order_def at_unknown split: prod.splits)
  then have "ran (link_at m') = {}" "\<not> IsIfaceAttached m' n"
    by (auto simp: ran_def accounted_def IsIfaceAttached_state_at)
  with acc show ?thesis by (simp add: accounted_def)
qed

end

text \<open>A host: its interfaces and the live links, each with its interface and direction.\<close>

record host =
  host_ifaces :: "(string \<times> int) list"
  host_links :: "(link \<times> int \<times> direction) list"

definition host_tcx :: "host tcx" where
  "host_tcx =
     \<lparr>InterfaceByName = (\<lambda>n w. (case map_of (host_ifaces w) n of
          None \<Rightarrow> Fail (ExtErr ''route ip+net: no such network interface'') | Some i \<Rightarrow> Ok i, w)),
      AttachTCX = (\<lambda>i p d w.
        if i \<in> snd ` set (host_ifaces w)
        then let l = Suc (Max (insert 0 (fst ` set (host_links w))))
             in (Ok l, w\<lparr>host_links := (l, i, d) # host_links w\<rparr>)
        else (Fail (ExtErr ''create link: no such device''), w)),
      CloseLink = (\<lambda>l w. (Ok (), w\<lparr>host_links := filter (\<lambda>x. fst x \<noteq> l) (host_links w)\<rparr>))\<rparr>"

definition host_live :: "host \<Rightarrow> link set" where
  "host_live w = fst ` set (host_links w)"

lemma Suc_Max_fresh: "(Suc (Max (insert 0 (fst ` set kvs))), v) \<notin> set kvs"
  by (metis (no_types) Max_ge Suc_n_not_le_n finite_imageI finite_insert finite_set fst_conv image_eqI insertI2)

interpretation host: tcx_api host_tcx host_live
  by unfold_locales
    (auto simp: host_tcx_def host_live_def Let_def Suc_Max_fresh split: if_splits)

section \<open>Properties\<close>

text \<open>Detaching everything releases every link: when the manager accounts for the live links and no
  close reports a failure, no link is live afterwards and no interface counts as attached, in
  whatever order Go ranges over the interfaces.\<close>

lemma DetachAll_releases_every_link:
  assumes "tcx_api K live" and "accounted (live w) m" and "map_order m order"
    and "DetachAll K order m w = (results, m', w')"
    and "\<forall>res \<in> set results. ar_State res \<noteq> StateFailed"
  shows "live w' = {} \<and> \<not> IsIfaceAttached m' n"
  using assms by (rule tcx_api.DetachAll_releases)

definition sample_host :: host where
  "sample_host = \<lparr>host_ifaces = [(''eth0'', 2), (''wlan0'', 3)], host_links = []\<rparr>"

definition sample_opts :: AttachOptions where
  "sample_opts = \<lparr>opt_Ingress = Some 7, opt_Egress = Some 8\<rparr>"

definition sample_attach :: "AttachmentManager \<times> host" where
  "sample_attach = snd (AttachIface host_tcx ''eth0'' sample_opts NewAttachmentManager sample_host)"

lemma accounted_new: "accounted {} NewAttachmentManager"
proof -
  have "link_at NewAttachmentManager = (\<lambda>_. None)" "state_at NewAttachmentManager p = StateNone" for p
    by (simp_all add: fun_eq_iff NewAttachmentManager_def link_at_def state_at_def getDirectionState_def)
  then show ?thesis by (simp add: accounted_def)
qed

lemma sample_attach_accounted: "accounted (host_live (snd sample_attach)) (fst sample_attach)"
proof -
  have "\<not> IsIfaceAttached NewAttachmentManager ''eth0''"
    by (simp add: IsIfaceAttached_def GetIfaceState_def NewAttachmentManager_def)
  moreover have "host_live sample_host = {}" by (simp add: host_live_def sample_host_def)
  ultimately show ?thesis
    using host.accounted_AttachIface [of sample_host NewAttachmentManager "''eth0''" sample_opts
        "fst (AttachIface host_tcx ''eth0'' sample_opts NewAttachmentManager sample_host)"]
      accounted_new
    by (simp add: sample_attach_def)
qed

text \<open>Attaching an interface again after it was attached changes nothing outside: while its name resolves
  to an index, no second link is created for an attached direction and both directions still
  report attached.\<close>

lemma AttachIface_idempotent:
  assumes "tcx_api K live" and "state_at m (n, Ingress) = StateAttached" and "state_at m (n, Egress) = StateAttached"
    and "AttachIface K n opts m w = (Ok results, m', w')"
  shows "m' = m \<and> live w' = live w \<and> list_all (\<lambda>res. ar_State res = StateAttached) results"
proof -
  obtain ri w1 where call: "InterfaceByName K n w = (ri, w1)" by fastforce
  then have "live w1 = live w" by (rule tcx_api.live_resolve [OF assms(1)])
  with call assms(2-4) show ?thesis
    by (cases ri) (auto simp: AttachIface_def resolveIfindex_def attach_if_def attachDirection_at Let_def
        split: option.splits)
qed

text \<open>C36. A name that stops resolving loses the link of an attached interface: the failed attempt marks both
  directions failed but keeps their links, and detaching then skips them, so the link stays live.\<close>

theorem failed_resolve_leaks_link:
  assumes "tcx_api K live" and "accounted (live w) m" and "link_at m (n, d) = Some l"
    and "InterfaceByName K n w = (Fail e, w')" and "AttachIface K n opts m w = (r, m', w'')"
  shows "l \<in> live w'' \<and> (\<exists>results. DetachIface K n m' w'' = (results, m', w'') \<and>
    list_all (\<lambda>res. ar_State res = StateDetached) results)"
proof -
  from assms(4,5) have m': "link_at m' = link_at m" "w'' = w'"
    "state_at m' = (state_at m)((n, Ingress) := StateFailed, (n, Egress) := StateFailed)"
    by (auto simp: AttachIface_def resolveIfindex_def at_setIfaceState)
  from assms(2,3) have "l \<in> live w" by (auto simp: accounted_def ran_def)
  moreover have "live w' = live w" using assms(1,4) by (rule tcx_api.live_resolve)
  moreover have "\<exists>r'. detachDirection K n dir m' w'' = (r', m', w'') \<and> ar_State r' = StateDetached" for dir
    using m'(3) by (cases dir) (auto simp: detachDirection_at Let_def split: option.splits)
  from this [of Ingress] this [of Egress]
  have "\<exists>results. DetachIface K n m' w'' = (results, m', w'') \<and>
      list_all (\<lambda>res. ar_State res = StateDetached) results"
    by (auto simp: DetachIface_def)
  ultimately show ?thesis using m'(2) by simp
qed

theorem failed_resolve_leaks_link_witness:
  "let m = fst sample_attach; w = (snd sample_attach)\<lparr>host_ifaces := []\<rparr>;
       (r, m', w') = AttachIface host_tcx ''eth0'' sample_opts m w
   in 1 \<in> host_live w' \<and> (\<exists>results. DetachIface host_tcx ''eth0'' m' w' = (results, m', w') \<and>
     list_all (\<lambda>res. ar_State res = StateDetached) results)"
proof -
  let ?m = "fst sample_attach" let ?w = "(snd sample_attach)\<lparr>host_ifaces := []\<rparr>"
  obtain r m' w' where run: "AttachIface host_tcx ''eth0'' sample_opts ?m ?w = (r, m', w')"
    by (cases "AttachIface host_tcx ''eth0'' sample_opts ?m ?w")
  have acc: "accounted (host_live ?w) ?m" using sample_attach_accounted by (simp add: host_live_def)
  have l: "link_at ?m (''eth0'', Ingress) = Some 1" by code_simp
  have r: "InterfaceByName host_tcx ''eth0'' ?w =
      (Fail (ExtErr ''route ip+net: no such network interface''), ?w)" by (simp add: host_tcx_def)
  from failed_resolve_leaks_link [OF host.tcx_api_axioms acc l r run] run show ?thesis
    by (simp add: Let_def)
qed

end
