(* ===== verification/Loader.thy ===== *)
theory Loader
  imports Attachment
begin

text \<open>
  Loading the eBPF objects, \<open>internal/ebpf/loader.go\<close>. The library \<open>cilium/ebpf\<close> and the file
  system are arguments: the record \<open>ebpf_lib\<close> and the answers of \<open>os.Stat\<close>, numbered by call since
  the loader asks more than once.
\<close>

section \<open>Specifications\<close>

datatype program_type = SchedCLS

record ProgramSpec =
  ps_Name :: string
  ps_Type :: program_type
  ps_AttachType :: direction

record CollectionSpec =
  spec_Maps :: "(string \<times> MapSpec) list"
  spec_Programs :: "(string \<times> ProgramSpec) list"

text \<open>
  A field of a struct handed to the library: its \<open>ebpf\<close> tag, if it has one, and whether its value is a nil
  pointer to a struct.
\<close>

record struct_field =
  sf_tag :: "string option"
  sf_nil_struct :: bool

record ebpf_lib =
  RemoveMemlock :: "unit result"
  LoadCollectionSpec :: "string \<Rightarrow> CollectionSpec result"
  ebpf_NewMap :: "MapSpec \<Rightarrow> bpf_handle result"
  LoadAndAssign ::
    "CollectionSpec \<Rightarrow> (string \<times> bpf_handle option) list \<Rightarrow> struct_field list \<Rightarrow> program option list result"

text \<open>
  \<open>LoadAndAssign spec replacements fields\<close> loads the collection and fills a struct of program pointers
  with the given fields; it returns their values. The library's documentation: a field is updated if it
  has an \<open>ebpf\<close> tag. Version 0.15, which \<open>go.mod\<close> requires, also looks for tags in the struct that a
  field without a tag points to, and refuses a nil pointer there.
\<close>

definition assigns_tagged_fields :: "ebpf_lib \<Rightarrow> bool" where
  "assigns_tagged_fields L \<longleftrightarrow>
     (\<forall>spec repl fields vals. LoadAndAssign L spec repl fields = Ok vals \<longrightarrow>
        list_all2 (\<lambda>f val. sf_tag f = None \<longrightarrow> val = None) fields vals)"

definition refuses_nil_structs :: "ebpf_lib \<Rightarrow> bool" where
  "refuses_nil_structs L \<longleftrightarrow>
     (\<forall>spec repl fields. list_ex (\<lambda>f. sf_tag f = None \<and> sf_nil_struct f) fields \<longrightarrow>
        (\<exists>e. LoadAndAssign L spec repl fields = Fail e))"

datatype file_stat = StatSize int | StatNotExist err | StatError err

section \<open>The loader\<close>

record Loader =
  objPath :: string
  btfEnabled :: bool

definition DefaultObjectPath :: string where
  "DefaultObjectPath = ''/usr/lib/traffic-count/traffic_count_bpfel.o''"

definition NewLoader :: "string \<Rightarrow> Loader" where
  "NewLoader path = \<lparr>objPath = (if path = [] then DefaultObjectPath else path), btfEnabled = True\<rparr>"

definition PrepareMemlock :: "ebpf_lib \<Rightarrow> unit result" where
  "PrepareMemlock L =
     (case RemoveMemlock L of
        Inl e \<Rightarrow> Fail (wrap_err ''failed to adjust memlock rlimit: %w'' e)
      | Inr _ \<Rightarrow> Ok ())"

text \<open>An object that cannot be examined, or of at most 100 bytes, is a placeholder.\<close>

definition isMockMode :: "file_stat \<Rightarrow> bool" where
  "isMockMode st =
     (case st of StatSize n \<Rightarrow> n \<le> 100 | StatNotExist _ \<Rightarrow> True | StatError _ \<Rightarrow> True)"

definition mockSpec :: CollectionSpec where
  "mockSpec =
     \<lparr>spec_Maps = [(''traffic_map'', \<lparr>spec_Name = ''traffic_map'', spec_Type = Hash, spec_KeySize = 10,
        spec_ValueSize = 48, spec_MaxEntries = 262144\<rparr>)],
      spec_Programs =
        [(''handle_ingress'', \<lparr>ps_Name = ''handle_ingress'', ps_Type = SchedCLS, ps_AttachType = Ingress\<rparr>),
         (''handle_egress'', \<lparr>ps_Name = ''handle_egress'', ps_Type = SchedCLS, ps_AttachType = Egress\<rparr>)]\<rparr>"

definition LoadSpec :: "ebpf_lib \<Rightarrow> (nat \<Rightarrow> file_stat) \<Rightarrow> Loader \<Rightarrow> CollectionSpec result" where
  "LoadSpec L stat l =
     (case stat 0 of
        StatNotExist e \<Rightarrow>
          if isMockMode (stat 1) then Ok mockSpec
          else Fail (Errorf ''eBPF object not found at %q: %w'' [AStr (objPath l), AErr e])
      | _ \<Rightarrow>
          (case LoadCollectionSpec L (objPath l) of
             Inl e \<Rightarrow>
               if isMockMode (stat 1) then Ok mockSpec
               else Fail (Errorf ''failed to load eBPF spec from %q: %w'' [AStr (objPath l), AErr e])
           | Inr spec \<Rightarrow> Ok spec))"

definition loadMockCollection :: "TrafficMap \<Rightarrow> Collection \<times> TrafficMap" where
  "loadMockCollection tm = (\<lparr>coll_ingress = None, coll_egress = None\<rparr>, tm)"

text \<open>
  The struct \<open>objs\<close> has two fields of type \<open>*ebpf.Program\<close>, neither with a tag, both nil. Of a collection
  only the programs are kept: no code reads its map table.
\<close>

definition objs_fields :: "struct_field list" where
  "objs_fields = [\<lparr>sf_tag = None, sf_nil_struct = True\<rparr>, \<lparr>sf_tag = None, sf_nil_struct = True\<rparr>]"

definition LoadTrafficObjects ::
  "ebpf_lib \<Rightarrow> (nat \<Rightarrow> file_stat) \<Rightarrow> Loader \<Rightarrow> (Collection \<times> TrafficMap) result" where
  "LoadTrafficObjects L stat l =
     (case LoadSpec L stat l of
        Inl e \<Rightarrow> Fail e
      | Inr spec \<Rightarrow>
          (case NewTrafficMap (ebpf_NewMap L) of
             Inl e \<Rightarrow> Fail (wrap_err ''failed to create traffic map: %w'' e)
           | Inr tm \<Rightarrow>
               (case LoadAndAssign L spec [(''traffic_map'', tm_m tm)] objs_fields of
                  Inl e \<Rightarrow>
                    if isMockMode (stat 2) then Ok (loadMockCollection tm)
                    else Fail (wrap_err ''failed to load eBPF collection: %w'' e)
                | Inr vals \<Rightarrow>
                    Ok (\<lparr>coll_ingress = vals ! 0, coll_egress = vals ! 1\<rparr>, tm))))"

section \<open>What is loaded\<close>

lemma LoadTrafficObjects_empty:
  assumes "assigns_tagged_fields L" and "LoadTrafficObjects L stat l = Ok (coll, tm)"
  shows "coll_ingress coll = None \<and> coll_egress coll = None \<and> tm_m tm \<noteq> None"
proof -
  from assms(2) obtain spec where tm: "NewTrafficMap (ebpf_NewMap L) = Ok tm"
    and coll: "coll = \<lparr>coll_ingress = None, coll_egress = None\<rparr> \<or>
      (\<exists>vals. LoadAndAssign L spec [(''traffic_map'', tm_m tm)] objs_fields = Ok vals \<and>
         coll = \<lparr>coll_ingress = vals ! 0, coll_egress = vals ! 1\<rparr>)"
    by (auto simp: LoadTrafficObjects_def loadMockCollection_def split: sum.splits if_splits)
  from tm have "tm_m tm \<noteq> None" by (auto simp: NewTrafficMap_def split: sum.splits)
  moreover have "vals ! 0 = None \<and> vals ! 1 = None"
    if "LoadAndAssign L spec [(''traffic_map'', tm_m tm)] objs_fields = Ok vals" for vals
  proof -
    from assms(1) that have "list_all2 (\<lambda>f val. sf_tag f = None \<longrightarrow> val = None) objs_fields vals"
      by (auto simp: assigns_tagged_fields_def)
    then show ?thesis by (auto simp: objs_fields_def list_all2_Cons1)
  qed
  ultimately show ?thesis using coll by auto
qed

text \<open>The loader never yields a program: the fields it asks the library to fill carry no tag, so a
  successful load returns a collection without programs, with the traffic map present, and the
  manager is in mock mode. Only the traffic map's creation and the library's errors are passed on.\<close>

lemma loaded_collection_has_no_programs:
  assumes "assigns_tagged_fields L" and "LoadTrafficObjects L stat l = Ok (coll, tm)"
  shows "IsMockMode (SetCollection (Some coll) (Some tm) m) \<and>
    GetIngress (SetCollection (Some coll) (Some tm) m) = None \<and>
    GetEgress (SetCollection (Some coll) (Some tm) m) = None \<and>
    Option.bind (GetTrafficMap (SetCollection (Some coll) (Some tm) m)) TrafficMap_Map \<noteq> None"
  using LoadTrafficObjects_empty [OF assms]
  by (simp add: IsMockMode_def SetCollection_def GetIngress_def GetEgress_def GetTrafficMap_def
      TrafficMap_Map_def)

text \<open>Under the library that refuses nil pointers only a placeholder object is ever loaded.\<close>

lemma LoadTrafficObjects_refused:
  assumes "refuses_nil_structs L" and "\<not> isMockMode (stat 2)"
  shows "\<exists>e. LoadTrafficObjects L stat l = Fail e"
proof -
  have "\<exists>e. LoadAndAssign L spec repl objs_fields = Fail e" for spec repl
    using assms(1) by (simp add: refuses_nil_structs_def objs_fields_def)
  with assms(2) show ?thesis by (auto simp: LoadTrafficObjects_def split: sum.splits) (metis sum.simps(4))
qed

lemma LoadTrafficObjects_map:
  assumes "LoadTrafficObjects L stat l = Ok (coll, tm)"
  obtains h where "ebpf_NewMap L TrafficMapSpec = Ok h" and "tm = \<lparr>tm_m = Some h\<rparr>"
  using assms
  by (auto simp: LoadTrafficObjects_def loadMockCollection_def NewTrafficMap_def split: sum.splits if_splits)

text \<open>
  A library for the witnesses that behaves as documented: a tagged field gets a program, an untagged nil
  pointer is refused, the traffic map encodes its keys with \<open>encoding/binary\<close>.
\<close>

definition sample_lib :: ebpf_lib where
  "sample_lib =
     \<lparr>RemoveMemlock = Ok (), LoadCollectionSpec = (\<lambda>_. Ok mockSpec),
      ebpf_NewMap = (\<lambda>spec. Ok (cilium_handle spec two_entries)),
      LoadAndAssign = (\<lambda>_ _ fields.
        if list_ex (\<lambda>f. sf_tag f = None \<and> sf_nil_struct f) fields then Fail (ExtErr ''nil pointer to struct'')
        else Ok (map (\<lambda>f. map_option (\<lambda>_. 1) (sf_tag f)) fields))\<rparr>"

lemma sample_lib_tagged: "assigns_tagged_fields sample_lib"
  by (auto simp: assigns_tagged_fields_def sample_lib_def list_all2_conv_all_nth split: if_splits)

lemma sample_lib_refuses: "refuses_nil_structs sample_lib"
  by (simp add: refuses_nil_structs_def sample_lib_def)

text \<open>It loads the placeholder of 52 bytes that the generator writes, as the mock.\<close>

lemma sample_lib_loads: "\<exists>coll tm. LoadTrafficObjects sample_lib (\<lambda>_. StatSize 52) (NewLoader []) = Ok (coll, tm)"
  by (simp add: LoadTrafficObjects_def LoadSpec_def sample_lib_def NewTrafficMap_def objs_fields_def
      loadMockCollection_def isMockMode_def)

end
