(* ===== verification/Bootstrap.thy ===== *)
theory Bootstrap
  imports Config
begin

text \<open>
  The startup validation of \<open>internal/bootstrap/bootstrap.go\<close>: every configured interface is
  checked, and the outcome decides the service mode. The operating system's answers (the user id,
  \<open>stat\<close> on \<open>/sys/class/net\<close>, the exit of \<open>tc\<close>) are arguments. Error texts are kept unrendered.
\<close>

section \<open>Modes and results\<close>

text \<open>\<open>NoMode\<close> is the zero value of the Go string type \<open>Mode\<close>.\<close>

datatype Mode = NoMode | ModeHealthy | ModeDegraded | ModeFailed

record StartupResult =
  res_Mode :: Mode
  res_TotalInterfaces :: nat
  res_AttachedInterfaces :: "string list"
  res_FailedInterfaces :: "string list"
  res_AttachErrors :: "err list"

text \<open>A nil check function is \<open>None\<close>.\<close>

record Validator =
  v_cfg :: Config
  v_checkCapability :: "(unit \<Rightarrow> unit result) option"
  v_checkInterface :: "(string \<Rightarrow> unit result) option"
  v_checkQdisc :: "(string \<Rightarrow> unit result) option"

section \<open>The real checks\<close>

record os_env =
  os_Getuid :: int
  os_Stat :: "string \<Rightarrow> unit result"
  os_IsNotExist :: "err \<Rightarrow> bool"
  run_tc :: "string \<Rightarrow> (err \<times> string) + string"

definition realCheckCapabilities :: "os_env \<Rightarrow> unit \<Rightarrow> unit result" where
  "realCheckCapabilities env _ =
     (if os_Getuid env \<noteq> 0
      then Fail (Errorf ''root privileges required (CAP_SYS_ADMIN, CAP_NET_ADMIN)'' [])
      else Ok ())"

definition realValidateInterface :: "os_env \<Rightarrow> string \<Rightarrow> unit result" where
  "realValidateInterface env iface =
     (case os_Stat env (''/sys/class/net/'' @ iface) of
        Inl e \<Rightarrow>
          if os_IsNotExist env e then Fail (Errorf ''interface %q does not exist'' [AStr iface])
          else Fail (Errorf ''failed to check interface %q: %w'' [AStr iface, AErr e])
      | Inr _ \<Rightarrow> Ok ())"

definition realCheckQdisc :: "os_env \<Rightarrow> string \<Rightarrow> unit result" where
  "realCheckQdisc env iface =
     (case run_tc env iface of
        Inl (e, output) \<Rightarrow>
          Fail (Errorf ''qdisc check failed for %q: %w (output: %s)'' [AStr iface, AErr e, AStr output])
      | Inr _ \<Rightarrow> Ok ())"

definition NewValidator :: "os_env \<Rightarrow> Config \<Rightarrow> Validator" where
  "NewValidator env cfg =
     \<lparr>v_cfg = cfg, v_checkCapability = Some (realCheckCapabilities env),
      v_checkInterface = Some (realValidateInterface env), v_checkQdisc = Some (realCheckQdisc env)\<rparr>"

section \<open>Validation\<close>

definition opt_check :: "('a \<Rightarrow> unit result) option \<Rightarrow> 'a \<Rightarrow> unit result" where
  "opt_check check x = (case check of None \<Rightarrow> Ok () | Some f \<Rightarrow> f x)"

text \<open>The loop over the interfaces; the result and the counter of attached ones are its state.\<close>

fun validate_loop :: "Validator \<Rightarrow> string list \<Rightarrow> StartupResult \<Rightarrow> nat \<Rightarrow> StartupResult \<times> nat" where
  "validate_loop v [] result attached = (result, attached)"
| "validate_loop v (iface # rest) result attached =
     (case opt_check (v_checkInterface v) iface of
        Inl e \<Rightarrow>
          validate_loop v rest
            (result\<lparr>res_FailedInterfaces := res_FailedInterfaces result @ [iface],
                    res_AttachErrors := res_AttachErrors result @ [e]\<rparr>) attached
      | Inr _ \<Rightarrow>
          (case opt_check (v_checkQdisc v) iface of
             Inl e \<Rightarrow>
               validate_loop v rest
                 (result\<lparr>res_FailedInterfaces := res_FailedInterfaces result @ [iface],
                         res_AttachErrors := res_AttachErrors result @ [e]\<rparr>) attached
           | Inr _ \<Rightarrow>
               validate_loop v rest
                 (result\<lparr>res_AttachedInterfaces := res_AttachedInterfaces result @ [iface]\<rparr>)
                 (Suc attached)))"

text \<open>The method returns a result and an error; \<open>None\<close> is the nil error.\<close>

definition Validator_Validate :: "Validator \<Rightarrow> StartupResult \<times> err option" where
  "Validator_Validate v =
     (let ifaces = Interfaces (v_cfg v);
          result = \<lparr>res_Mode = NoMode, res_TotalInterfaces = length ifaces, res_AttachedInterfaces = [],
                    res_FailedInterfaces = [], res_AttachErrors = []\<rparr>
      in if ifaces = []
         then (result, Some (Errorf ''startup validation failed: no interfaces configured'' []))
         else case opt_check (v_checkCapability v) () of
           Inl e \<Rightarrow> (result\<lparr>res_Mode := ModeFailed\<rparr>, Some (wrap_err ''startup validation failed: %w'' e))
         | Inr _ \<Rightarrow>
             (let (result, attached) = validate_loop v ifaces result 0
              in if attached = 0
                 then (result\<lparr>res_Mode := ModeFailed\<rparr>,
                       Some (Errorf ''startup validation failed: zero interfaces attached'' []))
                 else if attached < length ifaces
                 then (if AllowPartial (v_cfg v) then (result\<lparr>res_Mode := ModeDegraded\<rparr>, None)
                       else (result\<lparr>res_Mode := ModeFailed\<rparr>,
                             Some (Errorf ''startup validation failed: %d of %d interfaces failed (allow_partial=false)''
                               [AInt (int (length ifaces - attached)), AInt (int (length ifaces))])))
                 else (result\<lparr>res_Mode := ModeHealthy\<rparr>, None)))"

definition AttachCheck :: "Validator \<Rightarrow> err option" where
  "AttachCheck v = snd (Validator_Validate v)"

section \<open>The outcome\<close>

text \<open>An interface is usable when both its checks pass.\<close>

definition iface_check :: "Validator \<Rightarrow> string \<Rightarrow> unit result" where
  "iface_check v iface =
     bind_result (opt_check (v_checkInterface v) iface) (\<lambda>_. opt_check (v_checkQdisc v) iface)"

definition usable :: "Validator \<Rightarrow> string \<Rightarrow> bool" where
  "usable v iface \<longleftrightarrow> (case iface_check v iface of Inl _ \<Rightarrow> False | Inr _ \<Rightarrow> True)"

definition check_errors :: "Validator \<Rightarrow> string list \<Rightarrow> err list" where
  "check_errors v ifaces = map (\<lambda>i. projl (iface_check v i)) (filter (\<lambda>i. \<not> usable v i) ifaces)"

lemma validate_loop_eq:
  "validate_loop v ifaces result n =
     (result\<lparr>res_AttachedInterfaces := res_AttachedInterfaces result @ filter (usable v) ifaces,
             res_FailedInterfaces := res_FailedInterfaces result @ filter (\<lambda>i. \<not> usable v i) ifaces,
             res_AttachErrors := res_AttachErrors result @ check_errors v ifaces\<rparr>,
      n + length (filter (usable v) ifaces))"
  by (induction ifaces arbitrary: result n)
    (simp_all add: check_errors_def usable_def iface_check_def split: sum.split)

lemma filter_count: "length (filter P xs) < length xs \<longleftrightarrow> \<not> list_all P xs"
  by (induction xs) (auto simp: less_Suc_eq_le intro: length_filter_le)

lemma Validate_outcome:
  assumes "Interfaces (v_cfg v) \<noteq> []" and "opt_check (v_checkCapability v) () = Ok ()"
    and "Validator_Validate v = (result, e)"
  shows "res_AttachedInterfaces result = filter (usable v) (Interfaces (v_cfg v)) \<and>
    res_FailedInterfaces result = filter (\<lambda>i. \<not> usable v i) (Interfaces (v_cfg v)) \<and>
    length (res_AttachErrors result) = length (res_FailedInterfaces result) \<and>
    (res_Mode result = ModeHealthy \<longleftrightarrow> list_all (usable v) (Interfaces (v_cfg v))) \<and>
    (res_Mode result = ModeDegraded \<longleftrightarrow> AllowPartial (v_cfg v) \<and>
       \<not> list_all (usable v) (Interfaces (v_cfg v)) \<and> list_ex (usable v) (Interfaces (v_cfg v))) \<and>
    (e = None \<longleftrightarrow> res_Mode result \<noteq> ModeFailed) \<and> res_Mode result \<noteq> NoMode"
proof -
  let ?is = "Interfaces (v_cfg v)" let ?n = "length (filter (usable v) ?is)"
  have zero: "?n = 0 \<longleftrightarrow> \<not> list_ex (usable v) ?is"
    by (simp add: filter_empty_conv list_ex_iff)
  have all: "\<not> ?n < length ?is \<longleftrightarrow> list_all (usable v) ?is"
    by (simp add: filter_count)
  from assms(1) have "list_all (usable v) ?is \<Longrightarrow> list_ex (usable v) ?is"
    by (cases ?is) auto
  with assms zero all show ?thesis
    by (auto simp: Validator_Validate_def validate_loop_eq check_errors_def Let_def split: if_splits)
qed

text \<open>C23. The startup validation classifies the interfaces exactly: once the capability check passes, the
  attached list is the configured interfaces whose checks pass, in order, the failed list the others,
  each with one error. The mode is healthy when all pass, degraded when some but not all pass and
  partial operation is allowed, failed otherwise, and an error is returned exactly in the failed mode.\<close>

theorem Validate_classifies:
  assumes "Interfaces (v_cfg v) \<noteq> []" and "opt_check (v_checkCapability v) () = Ok ()"
    and "Validator_Validate v = (result, e)"
  shows "res_AttachedInterfaces result = filter (usable v) (Interfaces (v_cfg v)) \<and>
    res_FailedInterfaces result = filter (\<lambda>i. \<not> usable v i) (Interfaces (v_cfg v)) \<and>
    length (res_AttachErrors result) = length (res_FailedInterfaces result) \<and>
    (res_Mode result = ModeHealthy \<longleftrightarrow> list_all (usable v) (Interfaces (v_cfg v))) \<and>
    (res_Mode result = ModeDegraded \<longleftrightarrow> AllowPartial (v_cfg v) \<and>
       \<not> list_all (usable v) (Interfaces (v_cfg v)) \<and> list_ex (usable v) (Interfaces (v_cfg v))) \<and>
    (e = None \<longleftrightarrow> res_Mode result \<noteq> ModeFailed) \<and> res_Mode result \<noteq> NoMode"
  using assms by (rule Validate_outcome)

definition sample_validator :: Validator where
  "sample_validator =
     \<lparr>v_cfg = New_config\<lparr>Interfaces := [''eth0'', ''wlan0''], AllowPartial := True\<rparr>,
      v_checkCapability = None,
      v_checkInterface = Some (\<lambda>i. if i = ''eth0'' then Ok () else Fail (ExtErr ''no such interface'')),
      v_checkQdisc = None\<rparr>"

theorem Validate_classifies_witness:
  "res_AttachedInterfaces (fst (Validator_Validate sample_validator)) = [''eth0''] \<and>
   res_Mode (fst (Validator_Validate sample_validator)) = ModeDegraded"
proof -
  have "Interfaces (v_cfg sample_validator) \<noteq> []" "opt_check (v_checkCapability sample_validator) () = Ok ()"
    by code_simp+
  from Validate_classifies [OF this prod.collapse [symmetric]] show ?thesis
    by (simp add: sample_validator_def usable_def iface_check_def opt_check_def)
qed

end
