(* ===== verification/Service.thy ===== *)
theory Service
  imports Loader Bootstrap
begin

text \<open>
  The service of \<open>internal/runtime/runtime.go\<close>: it loads the eBPF objects, attaches the classifiers
  to the configured interfaces, keeps the status the HTTP API reports and detaches everything when it
  stops. \<open>K\<close> is the outside world of the attachment manager, \<open>L\<close> the eBPF library, \<open>stat\<close> the
  answers of \<open>os.Stat\<close>. What is printed is left out, and error texts are kept unrendered.
\<close>

section \<open>State\<close>

record Status =
  st_Mode :: Mode
  st_TotalInterfaces :: nat
  st_AttachedInterfaces :: "string list"
  st_FailedInterfaces :: "string list"
  st_LastFlushTimestamp :: int
  st_DatabasePath :: string
  st_AttachErrors :: "err list"

record Service =
  svc_cfg :: Config
  svc_status :: Status
  svc_loader :: Loader
  svc_manager :: AttachmentManager

definition NewService :: "Config \<Rightarrow> string \<Rightarrow> Service" where
  "NewService cfg ebpfPath =
     \<lparr>svc_cfg = cfg,
      svc_status = \<lparr>st_Mode = ModeHealthy, st_TotalInterfaces = length (Interfaces cfg),
        st_AttachedInterfaces = [], st_FailedInterfaces = [], st_LastFlushTimestamp = 0,
        st_DatabasePath = DatabasePath cfg, st_AttachErrors = []\<rparr>,
      svc_loader = NewLoader ebpfPath, svc_manager = NewAttachmentManager\<rparr>"

section \<open>Starting\<close>

definition contains :: "string list \<Rightarrow> string \<Rightarrow> bool" where
  "contains xs item \<longleftrightarrow> list_ex (\<lambda>s. s = item) xs"

fun direction_String :: "direction \<Rightarrow> string" where
  "direction_String Ingress = ''ingress''"
| "direction_String Egress = ''egress''"

text \<open>The three lists \<open>Start\<close> collects.\<close>

record start_lists =
  sl_errors :: "err list"
  sl_attached :: "string list"
  sl_failed :: "string list"

definition note_result :: "string \<Rightarrow> AttachResult \<Rightarrow> start_lists \<Rightarrow> start_lists" where
  "note_result name res sl =
     (if ar_State res = StateFailed
      then let sl = (case ar_Error res of
              None \<Rightarrow> sl
            | Some e \<Rightarrow> sl\<lparr>sl_errors := sl_errors sl @
                [Errorf ''interface %q %s: %v'' [AStr name, AStr (direction_String (ar_Direction res)), AErr e]]\<rparr>)
           in if \<not> contains (sl_failed sl) name then sl\<lparr>sl_failed := sl_failed sl @ [name]\<rparr> else sl
      else sl)"

text \<open>The body of the loop over the interfaces.\<close>

definition start_iface ::
  "'w tcx \<Rightarrow> string \<Rightarrow> start_lists \<times> AttachmentManager \<times> 'w \<Rightarrow> start_lists \<times> AttachmentManager \<times> 'w" where
  "start_iface K name s =
     (case s of (sl, m, w) \<Rightarrow>
        let opts = \<lparr>opt_Ingress = GetIngress m, opt_Egress = GetEgress m\<rparr>
        in if opt_Ingress opts = None \<and> opt_Egress opts = None
           then (if IsMockMode m then (sl, m, w)
                 else (sl\<lparr>sl_errors := sl_errors sl @ [Errorf ''no programs available for interface %q'' [AStr name]],
                          sl_failed := sl_failed sl @ [name]\<rparr>, m, w))
           else case AttachIface K name opts m w of
             (Inl e, m', w') \<Rightarrow>
               (sl\<lparr>sl_errors := sl_errors sl @ [e], sl_failed := sl_failed sl @ [name]\<rparr>, m', w')
           | (Inr results, m', w') \<Rightarrow>
               (let sl = fold (note_result name) results sl
                in (case GetIfaceState m' name of
                      None \<Rightarrow> sl
                    | Some s \<Rightarrow>
                        if attached_in Ingress s \<or> attached_in Egress s
                        then sl\<lparr>sl_attached := sl_attached sl @ [name]\<rparr> else sl,
                    m', w')))"

definition no_lists :: start_lists where
  "no_lists = \<lparr>sl_errors = [], sl_attached = [], sl_failed = []\<rparr>"

definition Service_Start ::
  "'w tcx \<Rightarrow> ebpf_lib \<Rightarrow> (nat \<Rightarrow> file_stat) \<Rightarrow> Service \<Rightarrow> 'w \<Rightarrow> unit result \<times> Service \<times> 'w" where
  "Service_Start K L stat s w =
     (case PrepareMemlock L of
        Inl e \<Rightarrow> (Fail (wrap_err ''failed to prepare memlock: %w'' e), s, w)
      | Inr _ \<Rightarrow>
          (case LoadTrafficObjects L stat (svc_loader s) of
             Inl e \<Rightarrow> (Fail (wrap_err ''failed to load eBPF objects: %w'' e), s, w)
           | Inr (coll, tm) \<Rightarrow>
               (case fold (start_iface K) (Interfaces (svc_cfg s))
                       (no_lists, SetCollection (Some coll) (Some tm) (svc_manager s), w) of
                  (sl, m, w') \<Rightarrow>
                    let st = (svc_status s)\<lparr>st_AttachedInterfaces := sl_attached sl,
                               st_FailedInterfaces := sl_failed sl, st_AttachErrors := sl_errors sl\<rparr>;
                        done = (\<lambda>st. s\<lparr>svc_status := st, svc_manager := m\<rparr>)
                    in if sl_attached sl = [] \<and> sl_failed sl \<noteq> []
                       then (Fail (Errorf ''all interface attachments failed'' []),
                             done (st\<lparr>st_Mode := ModeFailed\<rparr>), w')
                       else if sl_failed sl \<noteq> []
                       then (if AllowPartial (svc_cfg s)
                             then (Ok (), done (st\<lparr>st_Mode := ModeDegraded\<rparr>), w')
                             else (Fail (Errorf ''partial interface attachment failure (allow_partial=false)'' []),
                                   done (st\<lparr>st_Mode := ModeFailed\<rparr>), w'))
                       else (Ok (), done st, w'))))"

section \<open>Stopping and reporting\<close>

text \<open>The states are changed in place: the error text stays.\<close>

definition mark_detached :: "string \<Rightarrow> AttachmentManager \<Rightarrow> AttachmentManager" where
  "mark_detached name m =
     (case GetIfaceState m name of
        None \<Rightarrow> m
      | Some s \<Rightarrow>
          m\<lparr>ifaceStates := (ifaceStates m)(name \<mapsto>
             s\<lparr>is_Ingress := (is_Ingress s)\<lparr>ds_State := StateDetached, ds_Link := None\<rparr>,
               is_Egress := (is_Egress s)\<lparr>ds_State := StateDetached, ds_Link := None\<rparr>\<rparr>)\<rparr>)"

definition Service_Stop ::
  "'w tcx \<Rightarrow> string list \<Rightarrow> Service \<Rightarrow> 'w \<Rightarrow> AttachResult list \<times> Service \<times> 'w" where
  "Service_Stop K order s w =
     (case DetachAll K order (svc_manager s) w of
        (results, m, w') \<Rightarrow>
          (results,
           s\<lparr>svc_manager := fold mark_detached (Interfaces (svc_cfg s)) m,
             svc_status := (svc_status s)\<lparr>st_AttachedInterfaces := [], st_Mode := ModeFailed\<rparr>\<rparr>, w'))"

definition GetStatus :: "Service \<Rightarrow> Status" where
  "GetStatus s = svc_status s"

definition UpdateFromResult :: "StartupResult \<Rightarrow> Service \<Rightarrow> Service" where
  "UpdateFromResult result s =
     s\<lparr>svc_status := (svc_status s)\<lparr>st_Mode := res_Mode result,
         st_TotalInterfaces := res_TotalInterfaces result,
         st_AttachedInterfaces := res_AttachedInterfaces result,
         st_FailedInterfaces := res_FailedInterfaces result\<rparr>\<rparr>"

definition IsHealthy :: "Service \<Rightarrow> bool" where
  "IsHealthy s \<longleftrightarrow> st_Mode (svc_status s) = ModeHealthy"

definition IsDegraded :: "Service \<Rightarrow> bool" where
  "IsDegraded s \<longleftrightarrow> st_Mode (svc_status s) = ModeDegraded"

definition IsFailed :: "Service \<Rightarrow> bool" where
  "IsFailed s \<longleftrightarrow> st_Mode (svc_status s) = ModeFailed"

definition Service_GetTrafficMap :: "Service \<Rightarrow> TrafficMap option" where
  "Service_GetTrafficMap s = GetTrafficMap (svc_manager s)"

definition GetAttachmentManager :: "Service \<Rightarrow> AttachmentManager" where
  "GetAttachmentManager s = svc_manager s"

section \<open>String helpers\<close>

definition hasFailedInterface :: "string \<Rightarrow> string list \<Rightarrow> bool" where
  "hasFailedInterface ifaceName failed = contains failed ifaceName"

fun strings_Join :: "string list \<Rightarrow> string \<Rightarrow> string" where
  "strings_Join [] sep = []"
| "strings_Join [s] sep = s"
| "strings_Join (s # ss) sep = s @ sep @ strings_Join ss sep"

fun strings_Contains :: "string \<Rightarrow> string \<Rightarrow> bool" where
  "strings_Contains s sub \<longleftrightarrow> take (length sub) s = sub \<or> (case s of [] \<Rightarrow> False | _ # r \<Rightarrow> strings_Contains r sub)"

declare strings_Contains.simps [simp del]

definition stringsContains :: "string list \<Rightarrow> string \<Rightarrow> bool" where
  "stringsContains haystack needle \<longleftrightarrow>
     list_ex (\<lambda>s. s = needle) haystack \<or> strings_Contains (strings_Join haystack '','') needle"

lemma strings_Contains_iff: "strings_Contains s sub \<longleftrightarrow> (\<exists>pre post. s = pre @ sub @ post)"
proof (induction s)
  case Nil
  then show ?case by (auto simp: strings_Contains.simps)
next
  case (Cons c s)
  have "take (length sub) (c # s) = sub \<longleftrightarrow> (\<exists>post. c # s = sub @ post)"
    by (metis append_eq_conv_conj append_take_drop_id)
  with Cons show ?case
    by (auto simp: strings_Contains.simps [of "c # s"]) (metis Cons_eq_append_conv append_Cons append_Nil)+
qed

lemma strings_Join_member: "s \<in> set ss \<Longrightarrow> \<exists>pre post. strings_Join ss sep = pre @ s @ post"
proof (induction ss sep rule: strings_Join.induct)
  case (3 s' s'' ss sep)
  then consider "s = s'" | pre post where "strings_Join (s'' # ss) sep = pre @ s @ post" by auto
  then show ?case
  proof cases
    case 1
    then have "strings_Join (s' # s'' # ss) sep = [] @ s @ (sep @ strings_Join (s'' # ss) sep)" by simp
    then show ?thesis by blast
  next
    case (2 pre post)
    then have "strings_Join (s' # s'' # ss) sep = (s' @ sep @ pre) @ s @ post" by simp
    then show ?thesis by blast
  qed
qed (auto intro: exI [of _ "[]"])

text \<open>The search for an equal element adds nothing to the search in the joined string.\<close>

lemma stringsContains_joined:
  "stringsContains haystack needle \<longleftrightarrow> strings_Contains (strings_Join haystack '','') needle"
  using strings_Join_member [of needle haystack "'',''"]
  by (auto simp: stringsContains_def strings_Contains_iff list_ex_iff)

section \<open>One interface\<close>

lemma attach_if_None [simp]: "attach_if K n i d None m w = ([], m, w)"
  by (simp add: attach_if_def)

lemma collection_setDirectionState [simp]: "collection (setDirectionState n d ds m) = collection m"
  by (simp add: setDirectionState_def)

text \<open>Attaching a direction for the first time ends attached or failed, and the result says which.\<close>

lemma attach_if_fresh:
  assumes "attach_if K n i d (Some p) m w = (res, m', w')" and "state_at m (n, d) = StateNone"
  obtains r where "res = [r]" and "ar_State r = StateAttached \<or> ar_State r = StateFailed"
    and "state_at m' = (state_at m)((n, d) := ar_State r)" and "collection m' = collection m"
    and "ar_State r = StateFailed \<Longrightarrow> ar_Error r \<noteq> None"
  using assms
  by (auto simp: attach_if_def attachDirection_at Let_def split: prod.splits sum.splits)

definition any_failed :: "AttachmentManager \<Rightarrow> string \<Rightarrow> bool" where
  "any_failed m n \<longleftrightarrow> (\<exists>d. state_at m (n, d) = StateFailed)"

lemma both_directions: "(\<exists>d. P d) \<longleftrightarrow> P Ingress \<or> P Egress"
  by (metis direction.exhaust)

lemma note_results:
  "sl_attached (fold (note_result n) rs sl) = sl_attached sl"
  "n \<notin> set (sl_failed sl) \<Longrightarrow> sl_failed (fold (note_result n) rs sl) =
     sl_failed sl @ (if \<exists>r \<in> set rs. ar_State r = StateFailed then [n] else [])"
  "n \<in> set (sl_failed sl) \<Longrightarrow> sl_failed (fold (note_result n) rs sl) = sl_failed sl"
proof (induction rs arbitrary: sl)
  case (Cons r rs)
  { case 1 show ?case using Cons(1) by (auto simp: note_result_def Let_def split: option.splits) }
  { case 2 then show ?case
      using Cons(2,3) by (auto simp: note_result_def Let_def contains_def list_ex_iff split: option.splits) }
  { case 3 then show ?case
      using Cons(3) by (auto simp: note_result_def Let_def contains_def list_ex_iff split: option.splits) }
qed simp_all

lemma attached_note:
  "(case GetIfaceState m n of None \<Rightarrow> sl
    | Some s \<Rightarrow> if attached_in Ingress s \<or> attached_in Egress s then sl\<lparr>sl_attached := sl_attached sl @ [n]\<rparr> else sl)
   = (if IsIfaceAttached m n then sl\<lparr>sl_attached := sl_attached sl @ [n]\<rparr> else sl)"
  by (simp add: IsIfaceAttached_def split: option.splits)

text \<open>An interface the manager has not seen yet, before and after its turn in the loop.\<close>

definition fresh_iface :: "AttachmentManager \<Rightarrow> string \<Rightarrow> bool" where
  "fresh_iface m n \<longleftrightarrow> (\<forall>d. state_at m (n, d) = StateNone)"

lemma fresh_not_attached: "fresh_iface m n \<Longrightarrow> \<not> IsIfaceAttached m n"
  by (simp add: fresh_iface_def IsIfaceAttached_state_at)

lemma attach_both_fresh:
  assumes a1: "attach_if K n idx Ingress pin m w = (res1, m1, w1)"
    and a2: "attach_if K n idx Egress peg m1 w1 = (res2, m', w')"
    and fresh: "fresh_iface m n" and progs: "pin \<noteq> None \<or> peg \<noteq> None"
  shows "collection m' = collection m \<and> (\<forall>n' d. n' \<noteq> n \<longrightarrow> state_at m' (n', d) = state_at m (n', d)) \<and>
    (any_failed m' n \<longleftrightarrow> (\<exists>res \<in> set (res1 @ res2). ar_State res = StateFailed)) \<and>
    (IsIfaceAttached m' n \<or> any_failed m' n)"
proof -
  have none: "state_at m (n, d) = StateNone" for d using fresh by (simp add: fresh_iface_def)
  note defs = any_failed_def IsIfaceAttached_state_at both_directions
  show ?thesis
  proof (cases pin)
    case None
    with a1 progs obtain p where p: "peg = Some p" and m1: "m1 = m" "res1 = []" by auto
    from a2 [unfolded p] none [of Egress, folded m1(1)] show ?thesis
      by (rule attach_if_fresh) (auto simp: m1 none defs)
  next
    case (Some p)
    from a1 [unfolded Some] none obtain r1 where r1: "res1 = [r1]"
      "ar_State r1 = StateAttached \<or> ar_State r1 = StateFailed"
      "state_at m1 = (state_at m)((n, Ingress) := ar_State r1)" "collection m1 = collection m"
      by (rule attach_if_fresh)
    show ?thesis
    proof (cases peg)
      case None
      with a2 r1 none show ?thesis by (auto simp: defs)
    next
      case (Some q)
      have "state_at m1 (n, Egress) = StateNone" using r1(3) none by simp
      from a2 [unfolded Some] this show ?thesis
        by (rule attach_if_fresh) (use r1 in \<open>auto simp: defs\<close>)
    qed
  qed
qed

lemma AttachIface_fresh:
  assumes "AttachIface K n opts m w = (r, m', w')" and "fresh_iface m n"
    and "opt_Ingress opts \<noteq> None \<or> opt_Egress opts \<noteq> None"
  shows "collection m' = collection m"
    and "\<And>n' d. n' \<noteq> n \<Longrightarrow> state_at m' (n', d) = state_at m (n', d)"
    and "r = Fail e \<Longrightarrow> any_failed m' n \<and> \<not> IsIfaceAttached m' n"
    and "r = Ok results \<Longrightarrow> (any_failed m' n \<longleftrightarrow> (\<exists>res \<in> set results. ar_State res = StateFailed))"
    and "IsIfaceAttached m' n \<or> any_failed m' n"
proof -
  obtain ri w1 where call: "resolveIfindex K n w = (ri, w1)" by fastforce
  have "collection m' = collection m \<and> (\<forall>n' d. n' \<noteq> n \<longrightarrow> state_at m' (n', d) = state_at m (n', d)) \<and>
    (case r of Inl _ \<Rightarrow> any_failed m' n \<and> \<not> IsIfaceAttached m' n
     | Inr results \<Rightarrow> (any_failed m' n \<longleftrightarrow> (\<exists>res \<in> set results. ar_State res = StateFailed)) \<and>
         (IsIfaceAttached m' n \<or> any_failed m' n))"
  proof (cases ri)
    case (Inl e)
    with call assms(1) have m': "m' = setIfaceState n Egress StateFailed (Some e) (setIfaceState n Ingress StateFailed (Some e) m)"
      and "r = Fail (Errorf ''failed to resolve ifindex for %q: %w'' [AStr n, AErr e])"
      by (auto simp: AttachIface_def)
    moreover have "collection m' = collection m" by (simp add: m' setIfaceState_def Let_def)
    ultimately show ?thesis
      by (simp add: at_setIfaceState any_failed_def IsIfaceAttached_state_at both_directions)
  next
    case (Inr idx)
    with call assms(1) obtain res1 m1 w2 res2 where
      a1: "attach_if K n idx Ingress (opt_Ingress opts) m w1 = (res1, m1, w2)" and
      a2: "attach_if K n idx Egress (opt_Egress opts) m1 w2 = (res2, m', w')" and
      r: "r = Ok (res1 @ res2)"
      by (auto simp: AttachIface_def split: prod.splits)
    from attach_both_fresh [OF a1 a2 assms(2,3)] r show ?thesis by auto
  qed
  then show "collection m' = collection m"
    "\<And>n' d. n' \<noteq> n \<Longrightarrow> state_at m' (n', d) = state_at m (n', d)"
    "r = Fail e \<Longrightarrow> any_failed m' n \<and> \<not> IsIfaceAttached m' n"
    "r = Ok results \<Longrightarrow> (any_failed m' n \<longleftrightarrow> (\<exists>res \<in> set results. ar_State res = StateFailed))"
    "IsIfaceAttached m' n \<or> any_failed m' n"
    by (auto split: sum.splits)
qed

lemma start_iface_fresh:
  assumes "start_iface K n (sl, m, w) = (sl', m', w')" and "fresh_iface m n" and "\<not> IsMockMode m"
    and "n \<notin> set (sl_failed sl)"
  shows "collection m' = collection m"
    and "\<And>n' d. n' \<noteq> n \<Longrightarrow> state_at m' (n', d) = state_at m (n', d)"
    and "sl_attached sl' = sl_attached sl @ (if IsIfaceAttached m' n then [n] else [])"
    and "sl_failed sl' = sl_failed sl @ (if any_failed m' n then [n] else [])"
    and "IsIfaceAttached m' n \<or> any_failed m' n"
proof -
  let ?opts = "\<lparr>opt_Ingress = GetIngress m, opt_Egress = GetEgress m\<rparr>"
  obtain r m1 w1 where call: "AttachIface K n ?opts m w = (r, m1, w1)" by (cases "AttachIface K n ?opts m w")
  have progs: "opt_Ingress ?opts \<noteq> None \<or> opt_Egress ?opts \<noteq> None"
    using assms(3) by (auto simp: IsMockMode_def GetIngress_def GetEgress_def split: option.splits)
  note fresh = AttachIface_fresh [OF call assms(2) progs]
  from assms(1) progs call have m': "m' = m1"
    by (auto simp: start_iface_def Let_def split: sum.splits)
  from fresh m' show "collection m' = collection m"
    "\<And>n' d. n' \<noteq> n \<Longrightarrow> state_at m' (n', d) = state_at m (n', d)" "IsIfaceAttached m' n \<or> any_failed m' n"
    by simp_all
  show "sl_attached sl' = sl_attached sl @ (if IsIfaceAttached m' n then [n] else [])"
    "sl_failed sl' = sl_failed sl @ (if any_failed m' n then [n] else [])"
    using assms(1,4) progs call fresh(3,4) m'
    by (cases r; auto simp: start_iface_def Let_def attached_note note_results split: if_splits)+
qed

lemma IsIfaceAttached_cong:
  assumes "\<And>d. state_at m' (n, d) = state_at m (n, d)"
  shows "IsIfaceAttached m' n = IsIfaceAttached m n" "any_failed m' n = any_failed m n"
    "fresh_iface m' n = fresh_iface m n"
  using assms by (simp_all add: IsIfaceAttached_state_at any_failed_def fresh_iface_def)

lemma start_ifaces_fresh:
  assumes "fold (start_iface K) names (sl, m, w) = (sl', m', w')" and "distinct names"
    and "\<forall>n \<in> set names. fresh_iface m n \<and> n \<notin> set (sl_failed sl)" and "\<not> IsMockMode m"
  shows "sl_attached sl' = sl_attached sl @ filter (IsIfaceAttached m') names \<and>
    sl_failed sl' = sl_failed sl @ filter (any_failed m') names \<and>
    (\<forall>n \<in> set names. IsIfaceAttached m' n \<or> any_failed m' n) \<and>
    (\<forall>n d. n \<notin> set names \<longrightarrow> state_at m' (n, d) = state_at m (n, d))"
  using assms
proof (induction names arbitrary: sl m w)
  case (Cons n names)
  obtain sl1 m1 w1 where one: "start_iface K n (sl, m, w) = (sl1, m1, w1)"
    by (cases "start_iface K n (sl, m, w)")
  have "fresh_iface m n" "n \<notin> set (sl_failed sl)" using Cons.prems(3) by simp_all
  note s1 = start_iface_fresh [OF one this(1) Cons.prems(4) this(2)]
  have rest: "\<forall>n' \<in> set names. fresh_iface m1 n' \<and> n' \<notin> set (sl_failed sl1)"
  proof
    fix n'
    assume "n' \<in> set names"
    with Cons.prems(2,3) have "n' \<noteq> n" "fresh_iface m n'" "n' \<notin> set (sl_failed sl)" by auto
    with s1(4) IsIfaceAttached_cong(3) [OF s1(2)] show "fresh_iface m1 n' \<and> n' \<notin> set (sl_failed sl1)" by simp
  qed
  have mock: "\<not> IsMockMode m1" using Cons.prems(4) s1(1) by (simp add: IsMockMode_def)
  from Cons.prems(1,2) one have "fold (start_iface K) names (sl1, m1, w1) = (sl', m', w')" "distinct names"
    by simp_all
  note IH = Cons.IH [OF this rest mock]
  have "state_at m' (n, d) = state_at m1 (n, d)" for d using IH Cons.prems(2) by simp
  note same = IsIfaceAttached_cong [OF this]
  show ?case using IH s1 same by auto
qed simp

section \<open>Properties\<close>

lemma start_iface_mock:
  "IsMockMode m \<Longrightarrow> start_iface K name (sl, m, w) = (sl, m, w)"
  by (auto simp: start_iface_def IsMockMode_def GetIngress_def GetEgress_def split: option.splits)

lemma start_ifaces_mock:
  "IsMockMode m \<Longrightarrow> fold (start_iface K) names (sl, m, w) = (sl, m, w)"
  by (induction names) (simp_all add: start_iface_mock)

text \<open>
  What the loader's missing tags mean for the service: it attaches no classifier to any interface and
  still starts.
\<close>

lemma Start_attaches_nothing:
  assumes "assigns_tagged_fields L" and "RemoveMemlock L = Ok ()"
    and "LoadTrafficObjects L stat (NewLoader path) = Ok (coll, tm)"
    and "Service_Start K L stat (NewService cfg path) w = (r, s, w')"
  shows "r = Ok () \<and> w' = w \<and> IsHealthy s \<and> \<not> IsIfaceAttached (svc_manager s) n \<and>
    dom (ifaceStates (svc_manager s)) = {}"
proof -
  let ?m = "SetCollection (Some coll) (Some tm) NewAttachmentManager"
  from LoadTrafficObjects_empty [OF assms(1,3)] have "IsMockMode ?m"
    by (simp add: IsMockMode_def SetCollection_def)
  with assms(2-4)
  have res: "r = Ok ()" "w' = w" "svc_manager s = ?m" "st_Mode (svc_status s) = ModeHealthy"
    by (auto simp: Service_Start_def PrepareMemlock_def NewService_def start_ifaces_mock no_lists_def Let_def)
  have "\<not> IsIfaceAttached ?m n" "dom (ifaceStates ?m) = {}"
    by (simp_all add: IsIfaceAttached_def GetIfaceState_def SetCollection_def NewAttachmentManager_def)
  with res show ?thesis by (simp add: IsHealthy_def)
qed

text \<open>With programs loaded and no interface listed twice, \<open>Start\<close> reports exactly what happened: the
  attached list is the interfaces with a direction attached, the failed list those with a direction
  failed, and no configured interface is missing from both. It fails exactly when an interface failed
  and either none is attached or partial operation is not allowed, and then the mode is failed;
  otherwise the mode is degraded if something failed and healthy if not.\<close>

lemma Start_reports_every_interface:
  assumes "RemoveMemlock L = Ok ()" and "LoadTrafficObjects L stat (NewLoader path) = Ok (coll, tm)"
    and "coll_ingress coll \<noteq> None \<or> coll_egress coll \<noteq> None" and "distinct (Interfaces cfg)"
    and "Service_Start K L stat (NewService cfg path) w = (r, s, w')"
  shows "st_AttachedInterfaces (GetStatus s) = filter (IsIfaceAttached (svc_manager s)) (Interfaces cfg) \<and>
    st_FailedInterfaces (GetStatus s) = filter (any_failed (svc_manager s)) (Interfaces cfg) \<and>
    set (Interfaces cfg) = set (st_AttachedInterfaces (GetStatus s)) \<union> set (st_FailedInterfaces (GetStatus s)) \<and>
    (isl r \<longleftrightarrow> st_FailedInterfaces (GetStatus s) \<noteq> [] \<and>
       (st_AttachedInterfaces (GetStatus s) = [] \<or> \<not> AllowPartial cfg)) \<and>
    st_Mode (GetStatus s) = (if isl r then ModeFailed
       else if st_FailedInterfaces (GetStatus s) \<noteq> [] then ModeDegraded else ModeHealthy)"
proof -
  let ?m = "SetCollection (Some coll) (Some tm) NewAttachmentManager"
  obtain sl m w1 where loop: "fold (start_iface K) (Interfaces cfg) (no_lists, ?m, w) = (sl, m, w1)"
    by (cases "fold (start_iface K) (Interfaces cfg) (no_lists, ?m, w)")
  have "fresh_iface ?m n" for n
    by (simp add: fresh_iface_def state_at_def getDirectionState_def SetCollection_def NewAttachmentManager_def)
  moreover have "\<not> IsMockMode ?m" using assms(3) by (simp add: IsMockMode_def SetCollection_def)
  ultimately have lists: "sl_attached sl = filter (IsIfaceAttached m) (Interfaces cfg)"
    "sl_failed sl = filter (any_failed m) (Interfaces cfg)"
    "\<forall>n \<in> set (Interfaces cfg). IsIfaceAttached m n \<or> any_failed m n"
    using start_ifaces_fresh [OF loop assms(4)] by (simp_all add: no_lists_def)
  have mem: "PrepareMemlock L = Ok ()" using assms(1) by (simp add: PrepareMemlock_def)
  from assms(2,5) loop have s: "svc_manager s = m" "st_AttachedInterfaces (GetStatus s) = sl_attached sl"
    "st_FailedInterfaces (GetStatus s) = sl_failed sl"
    "isl r \<longleftrightarrow> sl_failed sl \<noteq> [] \<and> (sl_attached sl = [] \<or> \<not> AllowPartial cfg)"
    "st_Mode (GetStatus s) = (if isl r then ModeFailed else if sl_failed sl \<noteq> [] then ModeDegraded else ModeHealthy)"
    by (cases "sl_failed sl = []"; cases "sl_attached sl = []"; cases "AllowPartial cfg";
        auto simp: mem Service_Start_def NewService_def GetStatus_def Let_def)+
  have all: "set (Interfaces cfg) = set (sl_attached sl) \<union> set (sl_failed sl)" using lists by auto
  show ?thesis unfolding s(1-3) by (intro conjI lists(1,2) all s(4,5))
qed

text \<open>A library that fills both fields all the same, to exercise attaching and detaching.\<close>

definition full_lib :: ebpf_lib where
  "full_lib = sample_lib\<lparr>LoadAndAssign := (\<lambda>_ _ _. Ok [Some 1, Some 2])\<rparr>"

lemma full_lib_loads:
  "LoadTrafficObjects full_lib (\<lambda>_. StatSize 20000) (NewLoader []) =
     Ok (\<lparr>coll_ingress = Some 1, coll_egress = Some 2\<rparr>, \<lparr>tm_m = Some (cilium_handle TrafficMapSpec two_entries)\<rparr>)"
  by (simp add: LoadTrafficObjects_def LoadSpec_def full_lib_def sample_lib_def NewTrafficMap_def)

section \<open>Stopping releases what starting attached\<close>

lemma attach_if_frame:
  "attach_if K n i d p m w = (res, m', w') \<Longrightarrow> n' \<noteq> n \<Longrightarrow> state_at m' (n', d') = state_at m (n', d')"
  by (auto simp: attach_if_def attachDirection_at Let_def split: option.splits prod.splits sum.splits if_splits)

lemma AttachIface_frame:
  "AttachIface K n opts m w = (r, m', w') \<Longrightarrow> n' \<noteq> n \<Longrightarrow> state_at m' (n', d') = state_at m (n', d')"
  by (auto simp: AttachIface_def at_setIfaceState split: prod.splits sum.splits) (metis attach_if_frame)

lemma start_iface_cases:
  assumes "start_iface K n (sl, m, w) = (sl', m', w')"
  obtains (unchanged) "m' = m" and "w' = w"
  | (attached) opts r where "AttachIface K n opts m w = (r, m', w')"
  using assms by (auto simp: start_iface_def Let_def split: if_splits prod.splits sum.splits)

text \<open>Starting keeps the traffic map that the loader created.\<close>

lemma am_trafficMap_update [simp]:
  "am_trafficMap (setDirectionState n d ds m) = am_trafficMap m"
  "am_trafficMap (setIfaceState n d st e m) = am_trafficMap m"
  by (simp_all add: setDirectionState_def setIfaceState_def Let_def)

lemma AttachIface_map: "AttachIface K n opts m w = (r, m', w') \<Longrightarrow> am_trafficMap m' = am_trafficMap m"
  by (auto simp: AttachIface_def attach_if_def attachDirection_def Let_def
      split: prod.splits sum.splits option.splits if_splits)

lemma start_ifaces_map:
  "fold (start_iface K) names (sl, m, w) = (sl', m', w') \<Longrightarrow> am_trafficMap m' = am_trafficMap m"
proof (induction names arbitrary: sl m w)
  case (Cons n names)
  obtain sl1 m1 w1 where step: "start_iface K n (sl, m, w) = (sl1, m1, w1)" by (metis prod_cases3)
  then have "am_trafficMap m1 = am_trafficMap m"
    by (cases rule: start_iface_cases) (auto dest: AttachIface_map)
  with Cons step show ?case by simp
qed simp

lemma Service_Start_map:
  assumes "Service_Start K L stat (NewService cfg path) w = (Ok (), s, w')"
  obtains h where "ebpf_NewMap L TrafficMapSpec = Ok h" and "Service_GetTrafficMap s = Some \<lparr>tm_m = Some h\<rparr>"
proof -
  from assms obtain coll tm sl m where load: "LoadTrafficObjects L stat (NewLoader path) = Ok (coll, tm)"
    and loop: "fold (start_iface K) (Interfaces cfg) (no_lists, SetCollection (Some coll) (Some tm) NewAttachmentManager, w) = (sl, m, w')"
    and s: "svc_manager s = m"
    by (auto simp: Service_Start_def NewService_def Let_def split: sum.splits prod.splits if_splits)
  from load obtain h where "ebpf_NewMap L TrafficMapSpec = Ok h" and "tm = \<lparr>tm_m = Some h\<rparr>"
    by (rule LoadTrafficObjects_map)
  with start_ifaces_map [OF loop] s that show thesis
    by (simp add: Service_GetTrafficMap_def GetTrafficMap_def SetCollection_def)
qed

context tcx_api
begin

lemma accounted_start_ifaces:
  assumes "fold (start_iface K) names (sl, m, w) = (sl', m', w')" and "accounted (live w) m"
    and "distinct names" and "\<forall>n \<in> set names. \<not> IsIfaceAttached m n"
  shows "accounted (live w') m'"
  using assms
proof (induction names arbitrary: sl m w)
  case (Cons n names)
  obtain sl1 m1 w1 where one: "start_iface K n (sl, m, w) = (sl1, m1, w1)"
    by (cases "start_iface K n (sl, m, w)")
  with Cons.prems(1) have rest: "fold (start_iface K) names (sl1, m1, w1) = (sl', m', w')" by simp
  from one have "accounted (live w1) m1 \<and> (\<forall>n' \<in> set names. \<not> IsIfaceAttached m1 n')"
  proof (cases rule: start_iface_cases)
    case unchanged
    with Cons.prems show ?thesis by simp
  next
    case (attached opts r)
    have "accounted (live w1) m1"
      using accounted_AttachIface [OF Cons.prems(2) attached] Cons.prems(4) by simp
    moreover have "IsIfaceAttached m1 n' = IsIfaceAttached m n'" if "n' \<in> set names" for n'
      using that Cons.prems(3) by (intro IsIfaceAttached_cong AttachIface_frame [OF attached]) auto
    ultimately show ?thesis using Cons.prems(4) by simp
  qed
  with Cons.IH [OF rest] Cons.prems(3) show ?case by simp
qed simp

end

lemma Service_Start_manager:
  assumes "Service_Start K L stat s w = (r, s', w')"
  shows "svc_manager s' = svc_manager s \<and> w' = w \<or>
    (\<exists>coll tm sl. fold (start_iface K) (Interfaces (svc_cfg s))
       (no_lists, SetCollection coll tm (svc_manager s), w) = (sl, svc_manager s', w'))"
  using assms
  by (auto simp: Service_Start_def Let_def split: sum.splits prod.splits if_splits)

lemma SetCollection_views [simp]:
  "state_at (SetCollection coll tm m) = state_at m" "link_at (SetCollection coll tm m) = link_at m"
  by (simp_all add: fun_eq_iff SetCollection_def state_at_def link_at_def getDirectionState_def)

lemma mark_detached_attached: "IsIfaceAttached (mark_detached n m) n' \<Longrightarrow> IsIfaceAttached m n'"
  by (auto simp: mark_detached_def IsIfaceAttached_def GetIfaceState_def attached_in_def get_direction_def
      split: option.splits if_splits)

lemma mark_all_attached: "IsIfaceAttached (fold mark_detached names m) n' \<Longrightarrow> IsIfaceAttached m n'"
  by (induction names arbitrary: m) (auto dest: mark_detached_attached)

lemma Start_accounted:
  assumes "tcx_api K live" and "live w = {}" and "distinct (Interfaces cfg)"
    and "Service_Start K L stat (NewService cfg path) w = (r, s, w1)"
  shows "accounted (live w1) (svc_manager s)"
proof -
  have new: "accounted (live w) (SetCollection coll tm NewAttachmentManager)"
    "accounted (live w) NewAttachmentManager" for coll tm
    using accounted_new assms(2) by (simp_all add: accounted_def)
  have "\<not> IsIfaceAttached (SetCollection coll tm NewAttachmentManager) x" for coll tm x
    by (simp add: IsIfaceAttached_def GetIfaceState_def SetCollection_def NewAttachmentManager_def)
  with tcx_api.accounted_start_ifaces [OF assms(1) _ new(1) assms(3)] Service_Start_manager [OF assms(4)] new(2)
  show ?thesis by (auto simp: NewService_def)
qed

lemma Stop_releases:
  assumes "tcx_api K live" and "accounted (live w1) (svc_manager s)" and "map_order (svc_manager s) order"
    and "Service_Stop K order s w1 = (results, s', w2)" and "\<forall>res \<in> set results. ar_State res \<noteq> StateFailed"
  shows "live w2 = {}" and "\<not> IsIfaceAttached (svc_manager s') n" and "IsFailed s'"
proof -
  obtain m where stop: "DetachAll K order (svc_manager s) w1 = (results, m, w2)"
    and s': "svc_manager s' = fold mark_detached (Interfaces (svc_cfg s)) m" "IsFailed s'"
    using assms(4) by (auto simp: Service_Stop_def IsFailed_def split: prod.splits)
  from tcx_api.DetachAll_releases [OF assms(1,2,3) stop assms(5), of n] s'
  show "live w2 = {}" and "\<not> IsIfaceAttached (svc_manager s') n" and "IsFailed s'"
    by (auto dest: mark_all_attached)
qed

text \<open>C9. Stopping releases what starting attached: on a host where no link was live, with no interface
  listed twice, a service that started (or failed to) and is then stopped leaves no live link and no
  interface attached, provided no close reports a failure. The status then says failed.\<close>

theorem Start_Stop_releases_links:
  assumes "tcx_api K live" and "live w = {}" and "distinct (Interfaces cfg)"
    and "Service_Start K L stat (NewService cfg path) w = (r, s, w1)"
    and "map_order (svc_manager s) order" and "Service_Stop K order s w1 = (results, s', w2)"
    and "\<forall>res \<in> set results. ar_State res \<noteq> StateFailed"
  shows "live w2 = {} \<and> \<not> IsIfaceAttached (svc_manager s') n \<and> IsFailed s'"
  using Stop_releases [OF assms(1) Start_accounted [OF assms(1-4)] assms(5-7)] by blast

lemma attach_if_dom:
  assumes "attach_if K n i d p m w = (res, m', w')" and "state_at m (n, d) = StateNone"
  shows "dom (ifaceStates m') = (if p = None then dom (ifaceStates m) else insert n (dom (ifaceStates m)))"
  using assms
  by (auto simp: attach_if_def attachDirection_at Let_def setDirectionState_def
      split: option.splits prod.splits sum.splits if_splits)

lemma eth0_start:
  assumes "start_iface host_tcx ''eth0'' (no_lists, SetCollection (Some \<lparr>coll_ingress = Some 1, coll_egress = Some 2\<rparr>)
     tm NewAttachmentManager, sample_host) = (sl, m, w)"
  shows "map_order m [''eth0'']" and "host_live w = {1, 2}"
proof -
  let ?m = "SetCollection (Some \<lparr>coll_ingress = Some 1, coll_egress = Some 2\<rparr>) tm NewAttachmentManager"
  let ?opts = "\<lparr>opt_Ingress = Some 1, opt_Egress = Some 2\<rparr>"
  have "(\<lambda>(sl, m, w). host_live w) (start_iface host_tcx ''eth0'' (no_lists, ?m, sample_host)) = {1, 2}"
    by code_simp
  with assms show "host_live w = {1, 2}" by simp
  obtain r where "AttachIface host_tcx ''eth0'' ?opts ?m sample_host = (r, m, w)"
    using assms by (auto simp: start_iface_def GetIngress_def GetEgress_def SetCollection_def Let_def
        split: prod.splits sum.splits)
  then obtain r1 m1 w1 r2 where a: "attach_if host_tcx ''eth0'' 2 Ingress (Some 1) ?m sample_host = (r1, m1, w1)"
    "attach_if host_tcx ''eth0'' 2 Egress (Some 2) m1 w1 = (r2, m, w)"
    by (auto simp: AttachIface_def resolveIfindex_def host_tcx_def sample_host_def split: prod.splits)
  have st: "state_at ?m (''eth0'', d) = StateNone" for d
    by (simp add: state_at_def getDirectionState_def NewAttachmentManager_def)
  from a(1) st [of Ingress] have st1: "state_at m1 (''eth0'', Egress) = StateNone"
    by (rule attach_if_fresh) (use st [of Egress] in simp)
  from attach_if_dom [OF a(1) st] attach_if_dom [OF a(2) st1]
  show "map_order m [''eth0'']" by (simp add: map_order_def SetCollection_def NewAttachmentManager_def)
qed

theorem Start_Stop_releases_links_witness:
  "let (r, s, w) = Service_Start host_tcx full_lib (\<lambda>_. StatSize 20000)
         (NewService (New_config\<lparr>Interfaces := [''eth0'']\<rparr>) []) sample_host;
       (results, s', w') = Service_Stop host_tcx [''eth0''] s w
   in host_live w = {1, 2} \<and> host_live w' = {} \<and> IsFailed s'"
proof -
  let ?cfg = "New_config\<lparr>Interfaces := [''eth0'']\<rparr>"
  obtain r s w where start: "Service_Start host_tcx full_lib (\<lambda>_. StatSize 20000) (NewService ?cfg []) sample_host = (r, s, w)"
    by (cases "Service_Start host_tcx full_lib (\<lambda>_. StatSize 20000) (NewService ?cfg []) sample_host")
  obtain results s' w' where stop: "Service_Stop host_tcx [''eth0''] s w = (results, s', w')"
    by (cases "Service_Stop host_tcx [''eth0''] s w")
  have mem: "PrepareMemlock full_lib = Ok ()" by (simp add: PrepareMemlock_def full_lib_def sample_lib_def)
  from start have man: "map_order (svc_manager s) [''eth0'']" "host_live w = {1, 2}"
    by (auto simp: Service_Start_def mem full_lib_loads NewService_def Let_def dest: eth0_start [unfolded One_nat_def]
        split: prod.splits if_splits)
  have closes: "\<forall>res \<in> set results. ar_State res \<noteq> StateFailed"
    using stop by (auto simp: Service_Stop_def DetachIface_def detachDirection_def host_tcx_def Let_def
        split: prod.splits option.splits if_splits)
  have "host_live sample_host = {}" "distinct (Interfaces ?cfg)" by (simp_all add: host_live_def sample_host_def)
  from Start_Stop_releases_links [OF host.tcx_api_axioms this start man(1) stop closes] start stop man(2)
  show ?thesis by (simp add: Let_def)
qed

end
