(* ===== verification/Http_Api.thy ===== *)
theory Http_Api
  imports Flush Service "HOL-Library.Multiset"
begin

text \<open>
  The HTTP API of \<open>internal/http/http.go\<close>: health, status and the traffic queries with their
  filters, windows and pages. A request is its decoded query parameters, a response its status code
  and the value that is encoded as JSON. The clock \<open>now\<close>, the failures \<open>io\<close> of the database and
  the order \<open>rng\<close> in which Go ranges over a map are arguments; the handlers read the service and the
  flush loop through the two interfaces the package declares. An empty list stands for a nil or an
  empty slice: the two differ only in how JSON shows them.
\<close>

section \<open>The interfaces the server calls\<close>

record ServiceHealth =
  sh_IsHealthy :: bool
  sh_IsDegraded :: bool
  sh_IsFailed :: bool
  sh_GetStatus :: Status

record FlushLoopStatus =
  fs_LastFlush :: time
  fs_FlushError :: "err option"
  fs_IsStale :: bool

definition service_health :: "Service \<Rightarrow> ServiceHealth" where
  "service_health s =
     \<lparr>sh_IsHealthy = IsHealthy s, sh_IsDegraded = IsDegraded s, sh_IsFailed = IsFailed s,
      sh_GetStatus = GetStatus s\<rparr>"

definition flush_status :: "time \<Rightarrow> FlushLoop \<Rightarrow> FlushLoopStatus" where
  "flush_status now f =
     \<lparr>fs_LastFlush = LastFlush f, fs_FlushError = FlushError f, fs_IsStale = IsStale now f\<rparr>"

section \<open>Health and status\<close>

definition handleHealthz :: "ServiceHealth \<Rightarrow> FlushLoopStatus \<Rightarrow> nat" where
  "handleHealthz svc flush = (if sh_IsHealthy svc \<and> \<not> fs_IsStale flush then 200 else 503)"

record status_response =
  sr_mode :: string
  sr_configured_ifaces :: "string list"
  sr_attached_ifaces :: "string list"
  sr_failed_ifaces :: "string list"
  sr_last_flush_timestamp :: int
  sr_flush_error :: "err option"
  sr_database_path :: string

definition handleStatus :: "Config \<Rightarrow> ServiceHealth \<Rightarrow> FlushLoopStatus \<Rightarrow> status_response" where
  "handleStatus cfg svc flush =
     (let status = sh_GetStatus svc;
          flushTime = (if \<not> IsZero (fs_LastFlush flush) then Unix (fs_LastFlush flush) else 0);
          mode = (if sh_IsDegraded svc then ''degraded'' else if sh_IsFailed svc then ''failed'' else ''healthy'');
          mode = (if fs_IsStale flush \<and> mode = ''healthy'' then ''degraded'' else mode)
      in \<lparr>sr_mode = mode, sr_configured_ifaces = Interfaces cfg,
          sr_attached_ifaces = st_AttachedInterfaces status, sr_failed_ifaces = st_FailedInterfaces status,
          sr_last_flush_timestamp = flushTime, sr_flush_error = fs_FlushError flush,
          sr_database_path = DatabasePath cfg\<rparr>)"

section \<open>Addresses\<close>

definition hex_digit :: "nat \<Rightarrow> char" where
  "hex_digit n = (if n < 10 then char_of (48 + n) else char_of (87 + n))"

definition hex2 :: "byte \<Rightarrow> string" where
  "hex2 b = [hex_digit (unat b div 16), hex_digit (unat b mod 16)]"

fun macToString :: "mac \<Rightarrow> string" where
  "macToString (Mac a b c d e f) =
     hex2 a @ '':'' @ hex2 b @ '':'' @ hex2 c @ '':'' @ hex2 d @ '':'' @ hex2 e @ '':'' @ hex2 f"

definition is_hex :: "char \<Rightarrow> bool" where
  "is_hex c \<longleftrightarrow> (let n = (of_char c :: nat) in
     48 \<le> n \<and> n \<le> 57 \<or> 65 \<le> n \<and> n \<le> 70 \<or> 97 \<le> n \<and> n \<le> 102)"

text \<open>\<open>^([0-9A-Fa-f]{2}:){5}[0-9A-Fa-f]{2}$\<close>\<close>

fun mac_groups :: "nat \<Rightarrow> string \<Rightarrow> bool" where
  "mac_groups 0 s = (case s of [a, b] \<Rightarrow> is_hex a \<and> is_hex b | _ \<Rightarrow> False)"
| "mac_groups (Suc n) s =
     (case s of a # b # c # r \<Rightarrow> is_hex a \<and> is_hex b \<and> c = CHR '':'' \<and> mac_groups n r | _ \<Rightarrow> False)"

definition macRegex :: "string \<Rightarrow> bool" where
  "macRegex s = mac_groups 5 s"

text \<open>
  \<open>strings.EqualFold\<close>, applied with a formatted address on one side: its characters have no other
  case variants than the ASCII ones.
\<close>

definition fold_char :: "char \<Rightarrow> char" where
  "fold_char c = (let n = (of_char c :: nat) in if 65 \<le> n \<and> n \<le> 90 then char_of (n + 32) else c)"

definition EqualFold :: "string \<Rightarrow> string \<Rightarrow> bool" where
  "EqualFold s t \<longleftrightarrow> map fold_char s = map fold_char t"

definition mac_mismatch :: "string \<Rightarrow> mac \<Rightarrow> bool" where
  "mac_mismatch macFilter m \<longleftrightarrow> macFilter \<noteq> [] \<and> \<not> EqualFold (macToString m) macFilter"

section \<open>Traffic queries\<close>

text \<open>
  \<open>tr_counters\<close> holds the six counters of the Go struct: \<open>TotalBytes\<close> is \<open>Bytes\<close>,
  \<open>TotalPackets\<close> is \<open>Packets\<close>, the others have the same name.
\<close>

record TrafficRecord =
  tr_Interface :: string
  tr_Ifindex :: uint32
  tr_MAC :: string
  tr_counters :: TrafficCounters
  tr_Window :: string

definition make_record :: "RecordKey \<Rightarrow> TrafficCounters \<Rightarrow> string \<Rightarrow> TrafficRecord" where
  "make_record k c window =
     \<lparr>tr_Interface = InterfaceName k, tr_Ifindex = Ifindex k, tr_MAC = macToString (MAC k),
      tr_counters = c, tr_Window = window\<rparr>"

text \<open>The loop that skips \<open>offset\<close> matching elements and stops after \<open>limit\<close> of them.\<close>

fun page_loop :: "('a \<Rightarrow> bool) \<Rightarrow> int \<Rightarrow> int \<Rightarrow> int \<Rightarrow> int \<Rightarrow> 'a list \<Rightarrow> 'a list" where
  "page_loop mismatch limit offset skip cnt [] = []"
| "page_loop mismatch limit offset skip cnt (x # xs) =
     (if mismatch x then page_loop mismatch limit offset skip cnt xs
      else if skip < offset then page_loop mismatch limit offset (skip + 1) cnt xs
      else if cnt \<ge> limit then []
      else x # page_loop mismatch limit offset skip (cnt + 1) xs)"

definition queryAll ::
  "db_io \<Rightarrow> string \<Rightarrow> string \<Rightarrow> int \<Rightarrow> int \<Rightarrow> database \<Rightarrow> TrafficRecord list result" where
  "queryAll io ifaceFilter macFilter limit offset db =
     bind_result (ListTotals io ifaceFilter db)
       (\<lambda>ts. Ok (map (\<lambda>t. make_record (total_key t) (total_counters t) ''all'')
          (page_loop (\<lambda>t. mac_mismatch macFilter (MAC (total_key t))) limit offset 0 0 ts)))"

fun aggregate ::
  "string \<Rightarrow> string \<Rightarrow> DailyRecord list \<Rightarrow> (RecordKey, TrafficRecord) table \<Rightarrow> (RecordKey, TrafficRecord) table" where
  "aggregate windowName macFilter [] aggregated = aggregated"
| "aggregate windowName macFilter (d # ds) aggregated =
     (if mac_mismatch macFilter (MAC (daily_key d)) then aggregate windowName macFilter ds aggregated
      else aggregate windowName macFilter ds
        (upsert_row (daily_key d) (make_record (daily_key d) (daily_counters d) windowName)
           (\<lambda>rec. rec\<lparr>tr_counters := tr_counters rec + daily_counters d\<rparr>) aggregated))"

definition queryDateRange ::
  "(TrafficRecord list \<Rightarrow> TrafficRecord list) \<Rightarrow> db_io \<Rightarrow> string \<Rightarrow> string \<Rightarrow> string \<Rightarrow> string \<Rightarrow> int \<Rightarrow> int
     \<Rightarrow> string \<Rightarrow> database \<Rightarrow> TrafficRecord list result" where
  "queryDateRange rng io start end ifaceFilter macFilter limit offset windowName db =
     bind_result (ListDaily io start end ifaceFilter db)
       (\<lambda>ds. Ok (page_loop (\<lambda>_. False) limit offset 0 0
          (rng (map snd (aggregate windowName macFilter ds [])))))"

definition queryToday ::
  "(TrafficRecord list \<Rightarrow> TrafficRecord list) \<Rightarrow> db_io \<Rightarrow> time \<Rightarrow> string \<Rightarrow> string \<Rightarrow> int \<Rightarrow> int \<Rightarrow> database
     \<Rightarrow> TrafficRecord list result" where
  "queryToday rng io now ifaceFilter macFilter limit offset db =
     (let today = CurrentDateUTC now
      in queryDateRange rng io today today ifaceFilter macFilter limit offset ''today'' db)"

definition queryDays ::
  "(TrafficRecord list \<Rightarrow> TrafficRecord list) \<Rightarrow> db_io \<Rightarrow> time \<Rightarrow> int \<Rightarrow> string \<Rightarrow> string \<Rightarrow> int \<Rightarrow> int \<Rightarrow> database
     \<Rightarrow> TrafficRecord list result" where
  "queryDays rng io now days ifaceFilter macFilter limit offset db =
     (let end = CurrentDateUTC now;
          start = FormatDateUTC (AddDate_days (- days + 1) now);
          windowName = decimal (nat days) @ ''days''
      in queryDateRange rng io start end ifaceFilter macFilter limit offset windowName db)"

definition queryMonth ::
  "(TrafficRecord list \<Rightarrow> TrafficRecord list) \<Rightarrow> db_io \<Rightarrow> time \<Rightarrow> string \<Rightarrow> string \<Rightarrow> int \<Rightarrow> int \<Rightarrow> database
     \<Rightarrow> TrafficRecord list result" where
  "queryMonth rng io now ifaceFilter macFilter limit offset db =
     (case civil (now div day_ns) of (year, month, _) \<Rightarrow>
        let startOfMonth = Date year month 1;
            end = CurrentDateUTC now;
            start = FormatDateUTC startOfMonth
        in queryDateRange rng io start end ifaceFilter macFilter limit offset ''month'' db)"

section \<open>The traffic handler\<close>

type_synonym query = "(string \<times> string) list"

definition query_Get :: "query \<Rightarrow> string \<Rightarrow> string" where
  "query_Get q k = (case map_of q k of None \<Rightarrow> [] | Some v \<Rightarrow> v)"

datatype traffic_response =
    BadRequest string
  | InternalServerError err
  | Records (resp_window: string) (resp_limit: int) (resp_offset: int) (resp_records: "TrafficRecord list")

definition validWindows :: "string list" where
  "validWindows = [''all'', ''30days'', ''7days'', ''today'', ''month'']"

definition parse_limit :: "string \<Rightarrow> int" where
  "parse_limit limitStr =
     (if limitStr \<noteq> []
      then (case Atoi limitStr of Inl _ \<Rightarrow> 100 | Inr l \<Rightarrow> if l > 0 \<and> l \<le> 1000 then l else 100)
      else 100)"

definition parse_offset :: "string \<Rightarrow> int" where
  "parse_offset offsetStr =
     (if offsetStr \<noteq> []
      then (case Atoi offsetStr of Inl _ \<Rightarrow> 0 | Inr n \<Rightarrow> if n \<ge> 0 then n else 0)
      else 0)"

text \<open>The switch over the window.\<close>

definition query_window ::
  "(TrafficRecord list \<Rightarrow> TrafficRecord list) \<Rightarrow> db_io \<Rightarrow> time \<Rightarrow> string \<Rightarrow> string \<Rightarrow> string \<Rightarrow> int \<Rightarrow> int
     \<Rightarrow> database \<Rightarrow> TrafficRecord list result" where
  "query_window rng io now window ifaceFilter macFilter limit offset db =
     (if window = ''all'' then queryAll io ifaceFilter macFilter limit offset db
      else if window = ''today'' then queryToday rng io now ifaceFilter macFilter limit offset db
      else if window = ''7days'' then queryDays rng io now 7 ifaceFilter macFilter limit offset db
      else if window = ''30days'' then queryDays rng io now 30 ifaceFilter macFilter limit offset db
      else queryMonth rng io now ifaceFilter macFilter limit offset db)"

definition handleTraffic ::
  "(TrafficRecord list \<Rightarrow> TrafficRecord list) \<Rightarrow> db_io \<Rightarrow> time \<Rightarrow> query \<Rightarrow> database \<Rightarrow> traffic_response" where
  "handleTraffic rng io now q db =
     (let window = (if query_Get q ''window'' = [] then ''today'' else query_Get q ''window'')
      in if window \<notin> set validWindows
         then BadRequest ''invalid window, must be one of: all, 30days, 7days, today, month''
         else
           (let ifaceFilter = query_Get q ''interface''; macFilter = query_Get q ''mac''
            in if macFilter \<noteq> [] \<and> \<not> macRegex macFilter
               then BadRequest ''invalid mac format, must be XX:XX:XX:XX:XX:XX''
               else
                 (let limit = parse_limit (query_Get q ''limit'');
                      offset = parse_offset (query_Get q ''offset'')
                  in case query_window rng io now window ifaceFilter macFilter limit offset db of
                       Inl e \<Rightarrow> InternalServerError e
                     | Inr records \<Rightarrow> Records window limit offset records)))"

section \<open>Pages\<close>

lemma page_loop_eq:
  assumes "skip \<le> offset" and "cnt \<le> limit"
  shows "page_loop mismatch limit offset skip cnt xs =
    take (nat (limit - cnt)) (drop (nat (offset - skip)) (filter (\<lambda>x. \<not> mismatch x) xs))"
  using assms
proof (induction mismatch limit offset skip cnt xs rule: page_loop.induct)
  case (2 mismatch limit offset skip cnt x xs)
  consider "mismatch x" | "\<not> mismatch x" "skip < offset" | "\<not> mismatch x" "skip = offset" "cnt = limit"
    | "\<not> mismatch x" "skip = offset" "cnt < limit"
    using "2.prems" by linarith
  then show ?case
  proof cases
    case 2
    then have "nat (offset - skip) = Suc (nat (offset - (skip + 1)))" by simp
    with 2 "2.IH"(2) "2.prems" show ?thesis by simp
  next
    case 4
    then have "nat (limit - cnt) = Suc (nat (limit - (cnt + 1)))" by simp
    with 4 "2.IH"(3) "2.prems" show ?thesis by simp
  qed (use 2 in simp_all)
qed simp

lemma page_loop_page:
  "0 \<le> limit \<Longrightarrow> 0 \<le> offset \<Longrightarrow> page_loop mismatch limit offset 0 0 xs =
     take (nat limit) (drop (nat offset) (filter (\<lambda>x. \<not> mismatch x) xs))"
  using page_loop_eq [of 0 offset 0 limit] by simp

lemma parse_bounds: "1 \<le> parse_limit s \<and> parse_limit s \<le> 1000" "0 \<le> parse_offset s"
  by (auto simp: parse_limit_def parse_offset_def split: sum.splits)

lemma concat_pages:
  "concat (map (\<lambda>i. take l (drop (i * l) xs)) [0..<n]) = take (n * l) xs"
  by (induction n) (simp_all add: take_add [symmetric] add.commute)

text \<open>C25. Paging through the all-time window is exact: reading the pages at offsets 0, limit, 2 limit and so
  on, until they cover the number of matching rows, returns every matching row once, in the order of
  the listing.\<close>

theorem queryAll_pages_partition:
  assumes "ListTotals io ifaceFilter db = Ok ts" and "1 \<le> limit"
    and "length (filter (\<lambda>t. \<not> mac_mismatch macFilter (MAC (total_key t))) ts) \<le> n * nat limit"
  shows "concat (map (\<lambda>i. projr (queryAll io ifaceFilter macFilter limit (int i * limit) db)) [0..<n]) =
    map (\<lambda>t. make_record (total_key t) (total_counters t) ''all'')
      (filter (\<lambda>t. \<not> mac_mismatch macFilter (MAC (total_key t))) ts)"
proof -
  let ?xs = "filter (\<lambda>t. \<not> mac_mismatch macFilter (MAC (total_key t))) ts"
  let ?rec = "\<lambda>t. make_record (total_key t) (total_counters t) ''all''"
  have "projr (queryAll io ifaceFilter macFilter limit (int i * limit) db) =
      take (nat limit) (drop (i * nat limit) (map ?rec ?xs))" for i
    using assms(1,2) by (simp add: queryAll_def page_loop_page take_map drop_map nat_mult_distrib)
  with concat_pages [of "nat limit" "map ?rec ?xs" n] assms(3) show ?thesis by simp
qed

text \<open>Two rows of one day for two addresses.\<close>

definition two_macs_db :: database where
  "two_macs_db = (snd (New no_faults empty_file))\<lparr>
     totals := [(([], 2, [0, 0, 0, 0, 0, 1]), sql_of (Counters 10 1 10 1 0 0)),
                (([], 2, [0, 0, 0, 0, 0, 2]), sql_of (Counters 20 2 20 2 0 0))],
     daily := [((([], 2, [0, 0, 0, 0, 0, 1]), ''2024-01-01''), sql_of (Counters 10 1 10 1 0 0)),
               ((([], 2, [0, 0, 0, 0, 0, 2]), ''2024-01-01''), sql_of (Counters 20 2 20 2 0 0))]\<rparr>"

lemma two_macs_totals:
  "ListTotals no_faults [] two_macs_db =
     Ok [\<lparr>total_key = \<lparr>InterfaceName = [], Ifindex = 2, MAC = Mac 0 0 0 0 0 1\<rparr>, total_counters = Counters 10 1 10 1 0 0\<rparr>,
         \<lparr>total_key = \<lparr>InterfaceName = [], Ifindex = 2, MAC = Mac 0 0 0 0 0 2\<rparr>, total_counters = Counters 20 2 20 2 0 0\<rparr>]"
  by code_simp

theorem queryAll_pages_partition_witness:
  "map tr_MAC (concat (map (\<lambda>i. projr (queryAll no_faults [] [] 1 (int i * 1) two_macs_db)) [0..<2])) =
     [''00:00:00:00:00:01'', ''00:00:00:00:00:02'']"
proof -
  have mac: "macToString (Mac 0 0 0 0 0 1) = ''00:00:00:00:00:01''"
    "macToString (Mac 0 0 0 0 0 2) = ''00:00:00:00:00:02''" by code_simp+
  have "concat (map (\<lambda>i. projr (queryAll no_faults [] [] 1 (int i * 1) two_macs_db)) [0..<2]) =
      [make_record \<lparr>InterfaceName = [], Ifindex = 2, MAC = Mac 0 0 0 0 0 1\<rparr> (Counters 10 1 10 1 0 0) ''all'',
       make_record \<lparr>InterfaceName = [], Ifindex = 2, MAC = Mac 0 0 0 0 0 2\<rparr> (Counters 20 2 20 2 0 0) ''all'']"
    by (subst queryAll_pages_partition [OF two_macs_totals]) (simp_all add: mac_mismatch_def)
  then show ?thesis by (simp add: make_record_def mac del: macToString.simps)
qed

section \<open>Windows add up the daily rows\<close>

definition matching :: "string \<Rightarrow> RecordKey \<Rightarrow> DailyRecord list \<Rightarrow> DailyRecord list" where
  "matching macFilter k ds =
     filter (\<lambda>d. daily_key d = k \<and> \<not> mac_mismatch macFilter (MAC (daily_key d))) ds"

lemma matching_simps [simp]:
  "matching macFilter k [] = []"
  "matching macFilter k (d # ds) = (if daily_key d = k \<and> \<not> mac_mismatch macFilter (MAC (daily_key d))
     then d # matching macFilter k ds else matching macFilter k ds)"
  by (auto simp: matching_def)

lemma unique_keys_aggregate: "unique_keys agg \<Longrightarrow> unique_keys (aggregate w macFilter ds agg)"
  by (induction w macFilter ds agg rule: aggregate.induct) (simp_all add: unique_keys_upsert_row)

lemma map_of_aggregate:
  "map_of (aggregate w macFilter ds agg) k =
     (case map_of agg k of
        None \<Rightarrow> if matching macFilter k ds = [] then None
               else Some (make_record k (\<Sum>d \<leftarrow> matching macFilter k ds. daily_counters d) w)
      | Some r \<Rightarrow> Some (r\<lparr>tr_counters := tr_counters r + (\<Sum>d \<leftarrow> matching macFilter k ds. daily_counters d)\<rparr>))"
  by (induction w macFilter ds agg rule: aggregate.induct)
    (auto simp: map_of_upsert_row make_record_def add.assoc split: option.splits)

lemma aggregate_set:
  "r \<in> set (map snd (aggregate w macFilter ds [])) \<longleftrightarrow>
     (\<exists>k. matching macFilter k ds \<noteq> [] \<and> r = make_record k (\<Sum>d \<leftarrow> matching macFilter k ds. daily_counters d) w)"
proof -
  have "r \<in> set (map snd (aggregate w macFilter ds [])) \<longleftrightarrow>
      (\<exists>k. map_of (aggregate w macFilter ds []) k = Some r)"
    using unique_keys_map_of [OF unique_keys_aggregate [OF unique_keys_Nil, of w macFilter ds]] by force
  also have "\<dots> \<longleftrightarrow> (\<exists>k. matching macFilter k ds \<noteq> [] \<and>
      r = make_record k (\<Sum>d \<leftarrow> matching macFilter k ds. daily_counters d) w)"
    by (auto simp: map_of_aggregate split: if_splits)
  finally show ?thesis .
qed

lemma length_upsert_row_le: "length (upsert_row k new upd t) \<le> Suc (length t)"
  by (induction k new upd t rule: upsert_row.induct) auto

lemma length_aggregate: "length (aggregate w macFilter ds agg) \<le> length ds + length agg"
proof (induction w macFilter ds agg rule: aggregate.induct)
  case (2 w macFilter d ds agg)
  let ?agg = "upsert_row (daily_key d) (make_record (daily_key d) (daily_counters d) w)
    (\<lambda>rec. rec\<lparr>tr_counters := tr_counters rec + daily_counters d\<rparr>) agg"
  have "length ?agg \<le> Suc (length agg)" by (rule length_upsert_row_le)
  with 2 show ?case by auto
qed simp

lemma queryDateRange_whole:
  assumes "mset (rng (map snd (aggregate w macFilter ds []))) = mset (map snd (aggregate w macFilter ds []))"
    and "ListDaily io start stop ifaceFilter db = Ok ds" and "int (length ds) \<le> limit"
  shows "queryDateRange rng io start stop ifaceFilter macFilter limit 0 w db =
      Ok (rng (map snd (aggregate w macFilter ds [])))"
    and "r \<in> set (rng (map snd (aggregate w macFilter ds []))) \<longleftrightarrow> (\<exists>k. matching macFilter k ds \<noteq> [] \<and>
      r = make_record k (\<Sum>d \<leftarrow> matching macFilter k ds. daily_counters d) w)"
proof -
  have "length (aggregate w macFilter ds []) \<le> length ds"
    using length_aggregate [of w macFilter ds "[]"] by simp
  with assms(3) have "length (map snd (aggregate w macFilter ds [])) \<le> nat limit" by simp
  moreover have "length (rng (map snd (aggregate w macFilter ds []))) = length (map snd (aggregate w macFilter ds []))"
    using assms(1) by (metis mset_eq_length)
  ultimately show "queryDateRange rng io start stop ifaceFilter macFilter limit 0 w db =
      Ok (rng (map snd (aggregate w macFilter ds [])))"
    using assms(2,3) by (auto simp: queryDateRange_def page_loop_page)
  show "r \<in> set (rng (map snd (aggregate w macFilter ds []))) \<longleftrightarrow> (\<exists>k. matching macFilter k ds \<noteq> [] \<and>
      r = make_record k (\<Sum>d \<leftarrow> matching macFilter k ds. daily_counters d) w)"
    using mset_eq_setD [OF assms(1)] aggregate_set [of r w macFilter ds] by simp
qed

text \<open>C19. A date window adds up the daily rows: for any order Go ranges in, a page from offset 0 with room
  for every address contains, for each record key with a listed row that passes the address filter,
  the record with the sum (modulo $2^{64}$) of that key's rows in the window, and nothing else.\<close>

theorem date_window_sums_rows:
  assumes "\<forall>xs. mset (rng xs) = mset xs"
    and "ListDaily io start stop ifaceFilter db = Ok ds"
    and "int (length ds) \<le> limit"
    and "queryDateRange rng io start stop ifaceFilter macFilter limit 0 w db = Ok recs"
  shows "r \<in> set recs \<longleftrightarrow> (\<exists>k. matching macFilter k ds \<noteq> [] \<and>
    r = make_record k (\<Sum>d \<leftarrow> matching macFilter k ds. daily_counters d) w)"
  using queryDateRange_whole [where rng = rng and w = w and macFilter = macFilter, OF _ assms(2,3)]
    assms(1,4) by simp

definition two_days_db :: database where
  "two_days_db = (snd (New no_faults empty_file))\<lparr>
     daily := [((([], 2, [0, 0, 0, 0, 0, 1]), ''2024-01-01''), sql_of (Counters 10 1 10 1 0 0)),
               ((([], 2, [0, 0, 0, 0, 0, 1]), ''2024-01-02''), sql_of (Counters 5 1 0 0 5 1))]\<rparr>"

theorem date_window_sums_rows_witness:
  "\<exists>recs. queryDateRange rev no_faults ''2024-01-01'' ''2024-01-07'' [] [] 100 0 ''7days'' two_days_db = Ok recs \<and>
     make_record \<lparr>InterfaceName = [], Ifindex = 2, MAC = Mac 0 0 0 0 0 1\<rparr> (Counters 15 2 10 1 5 1) ''7days'' \<in> set recs"
proof -
  let ?k = "\<lparr>InterfaceName = [], Ifindex = 2, MAC = Mac 0 0 0 0 0 1\<rparr>"
  let ?ds = "[\<lparr>daily_key = ?k, daily_DateUTC = ''2024-01-01'', daily_counters = Counters 10 1 10 1 0 0\<rparr>,
    \<lparr>daily_key = ?k, daily_DateUTC = ''2024-01-02'', daily_counters = Counters 5 1 0 0 5 1\<rparr>]"
  have list: "ListDaily no_faults ''2024-01-01'' ''2024-01-07'' [] two_days_db = Ok ?ds" by code_simp
  then obtain recs where q: "queryDateRange rev no_faults ''2024-01-01'' ''2024-01-07'' [] [] 100 0 ''7days'' two_days_db = Ok recs"
    by (simp add: queryDateRange_def)
  have m: "matching [] ?k ?ds = ?ds" by (simp add: mac_mismatch_def)
  have "make_record ?k (Counters 15 2 10 1 5 1) ''7days'' \<in> set recs"
    by (subst date_window_sums_rows [where rng = rev, OF _ list _ q]) (auto simp: m mac_mismatch_def intro!: exI [of _ ?k])
  with q show ?thesis by blast
qed

section \<open>Requests\<close>

lemma page_length:
  assumes "1 \<le> limit" and "0 \<le> offset"
  shows "queryAll io ifaceFilter macFilter limit offset db = Ok recs \<Longrightarrow> int (length recs) \<le> limit"
    and "queryDateRange rng io start stop ifaceFilter macFilter limit offset w db = Ok recs \<Longrightarrow>
      int (length recs) \<le> limit"
  using assms
  by (auto simp: queryAll_def queryDateRange_def bind_result_Inr_iff page_loop_page)

lemma query_window_length:
  assumes "1 \<le> limit" and "0 \<le> offset"
    and "query_window rng io now window ifaceFilter macFilter limit offset db = Ok recs"
  shows "int (length recs) \<le> limit"
  using assms(3) page_length [OF assms(1,2)]
  by (auto simp: query_window_def queryToday_def queryDays_def queryMonth_def Let_def split: if_splits prod.splits)

text \<open>C27. A traffic request is refused exactly when its window is not one of the five or its address filter
  is not six hexadecimal bytes; an answered request has a limit from 1 to 1000, an offset that is not
  negative, and at most \<open>limit\<close> records, whatever the limit and offset parameters were.\<close>

theorem handleTraffic_answers:
  "case handleTraffic rng io now q db of
     BadRequest msg \<Rightarrow>
       query_Get q ''window'' \<notin> {[], ''all'', ''30days'', ''7days'', ''today'', ''month''} \<or>
       query_Get q ''mac'' \<noteq> [] \<and> \<not> macRegex (query_Get q ''mac'')
   | InternalServerError e \<Rightarrow>
       query_Get q ''window'' \<in> {[], ''all'', ''30days'', ''7days'', ''today'', ''month''} \<and>
       (query_Get q ''mac'' = [] \<or> macRegex (query_Get q ''mac''))
   | Records window limit offset records \<Rightarrow>
       query_Get q ''window'' \<in> {[], ''all'', ''30days'', ''7days'', ''today'', ''month''} \<and>
       (query_Get q ''mac'' = [] \<or> macRegex (query_Get q ''mac'')) \<and>
       window = (if query_Get q ''window'' = [] then ''today'' else query_Get q ''window'') \<and>
       1 \<le> limit \<and> limit \<le> 1000 \<and> 0 \<le> offset \<and> int (length records) \<le> limit"
proof -
  define w where "w = (if query_Get q ''window'' = [] then ''today'' else query_Get q ''window'')"
  define l where "l = parse_limit (query_Get q ''limit'')"
  define off where "off = parse_offset (query_Get q ''offset'')"
  define mac where "mac = query_Get q ''mac''"
  define res where "res = query_window rng io now w (query_Get q ''interface'') mac l off db"
  have b: "1 \<le> l" "l \<le> 1000" "0 \<le> off"
    using parse_bounds by (auto simp: l_def off_def)
  have win: "query_Get q ''window'' \<in> {[], ''all'', ''30days'', ''7days'', ''today'', ''month''} \<longleftrightarrow> w \<in> set validWindows"
    by (auto simp: validWindows_def w_def)
  have resp: "handleTraffic rng io now q db =
      (if w \<notin> set validWindows then BadRequest ''invalid window, must be one of: all, 30days, 7days, today, month''
       else if mac \<noteq> [] \<and> \<not> macRegex mac
       then BadRequest ''invalid mac format, must be XX:XX:XX:XX:XX:XX''
       else case res of Inl e \<Rightarrow> InternalServerError e | Inr records \<Rightarrow> Records w l off records)"
    unfolding handleTraffic_def Let_def res_def w_def l_def off_def mac_def ..
  have len: "res = Ok recs \<Longrightarrow> int (length recs) \<le> l" for recs
    unfolding res_def by (rule query_window_length [OF b(1,3)])
  show ?thesis
    unfolding win w_def [symmetric] mac_def [symmetric] using b len
    by (cases res) (auto simp: resp)
qed

theorem handleTraffic_answers_witness:
  "\<exists>msg. handleTraffic id no_faults 0 [(''window'', ''week'')] two_days_db = BadRequest msg \<and>
     query_Get [(''window'', ''week'')] ''window'' \<notin> {[], ''all'', ''30days'', ''7days'', ''today'', ''month''}"
proof -
  have "\<exists>msg. handleTraffic id no_faults 0 [(''window'', ''week'')] two_days_db = BadRequest msg"
    by (simp add: handleTraffic_def query_Get_def validWindows_def)
  with handleTraffic_answers [where rng = id and io = no_faults and now = 0
      and q = "[(''window'', ''week'')]" and db = two_days_db]
  show ?thesis by (auto simp: query_Get_def)
qed

text \<open>An address filter selects one address.\<close>

lemma hex_digit_inject: "v < 16 \<Longrightarrow> v' < 16 \<Longrightarrow> hex_digit v = hex_digit v' \<longleftrightarrow> v = v'"
  by (auto simp: hex_digit_def dest!: arg_cong [of _ _ "of_char :: char \<Rightarrow> nat"] split: if_splits)

lemma fold_hex_digit: "v < 16 \<Longrightarrow> fold_char (hex_digit v) = hex_digit v"
  by (auto simp: fold_char_def hex_digit_def Let_def)

lemma fold_is_hex:
  assumes "is_hex c"
  obtains v where "v < 16" and "fold_char c = hex_digit v"
proof -
  let ?n = "of_char c :: nat"
  have c: "char_of ?n = c" by simp
  from assms consider "48 \<le> ?n \<and> ?n \<le> 57" | "65 \<le> ?n \<and> ?n \<le> 70" | "97 \<le> ?n \<and> ?n \<le> 102"
    by (auto simp: is_hex_def Let_def)
  then show ?thesis
  proof cases
    case 1
    with c show ?thesis by (intro that [of "?n - 48"]) (auto simp: fold_char_def hex_digit_def Let_def)
  next
    case 2
    then show ?thesis by (intro that [of "?n - 55"]) (auto simp: fold_char_def hex_digit_def Let_def)
  next
    case 3
    with c show ?thesis by (intro that [of "?n - 87"]) (auto simp: fold_char_def hex_digit_def Let_def)
  qed
qed

lemma unat_byte: "unat (x :: byte) < 256"
  using unsigned_less [of x, where ?'a = nat] by simp

lemma hex2_inject: "hex2 a = hex2 b \<longleftrightarrow> a = b"
proof
  have bound: "unat (x :: byte) div 16 < 16" "unat x mod 16 < 16" for x
    using unat_byte [of x] by simp_all
  assume "hex2 a = hex2 b"
  with bound have "unat a div 16 = unat b div 16" "unat a mod 16 = unat b mod 16"
    by (simp_all add: hex2_def hex_digit_inject)
  then have "unat a = unat b" by (metis div_mult_mod_eq)
  then show "a = b" by (simp add: word_unat_eq_iff)
qed simp

lemma hex2_of_nat: "v < 16 \<Longrightarrow> v' < 16 \<Longrightarrow> hex2 (of_nat (16 * v + v')) = [hex_digit v, hex_digit v']"
proof -
  assume v: "v < 16" "v' < 16"
  then have "unat (of_nat (16 * v + v') :: byte) = 16 * v + v'"
    by (simp add: unat_of_nat del: of_nat_add of_nat_mult)
  with v show ?thesis by (simp add: hex2_def del: of_nat_add of_nat_mult)
qed

lemma fold_hex2: "map fold_char (hex2 b) = hex2 b"
  using unat_byte [of b] by (simp add: hex2_def fold_hex_digit)

fun join_hex :: "byte list \<Rightarrow> string" where
  "join_hex [] = []"
| "join_hex [b] = hex2 b"
| "join_hex (b # bs) = hex2 b @ CHR '':'' # join_hex bs"

lemma fold_join_hex: "map fold_char (join_hex bs) = join_hex bs"
proof -
  have "fold_char CHR '':'' = CHR '':''" by code_simp
  then show ?thesis by (induction bs rule: join_hex.induct) (simp_all add: fold_hex2)
qed

lemma macToString_join: "macToString m = join_hex (mac_bytes m)"
  by (cases m) simp

lemma length_hex2 [simp]: "length (hex2 b) = 2"
  by (simp add: hex2_def)

lemma macToString_inject: "macToString m = macToString m' \<longleftrightarrow> m = m'"
  by (cases m; cases m') (auto simp: hex2_inject append_eq_append_conv)

lemma fold_hex_pair: "is_hex a \<Longrightarrow> is_hex b \<Longrightarrow> \<exists>x. map fold_char [a, b] = hex2 x"
  by (metis fold_is_hex hex2_of_nat list.simps(8,9))

lemma mac_groups_join:
  "mac_groups n s \<Longrightarrow> \<exists>bs. length bs = Suc n \<and> map fold_char s = join_hex bs"
proof (induction n arbitrary: s)
  case 0
  then obtain a b where s: "s = [a, b]" "is_hex a" "is_hex b" by (auto split: list.splits)
  with fold_hex_pair obtain x where "map fold_char s = join_hex [x]" by fastforce
  then show ?case by (intro exI [of _ "[x]"]) simp
next
  case (Suc n)
  then obtain a b r where s: "s = a # b # CHR '':'' # r" "is_hex a" "is_hex b" "mac_groups n r"
    by (auto split: list.splits)
  from Suc.IH [OF s(4)] obtain bs where bs: "length bs = Suc n" "map fold_char r = join_hex bs" by blast
  from fold_hex_pair [OF s(2,3)] obtain x where x: "map fold_char [a, b] = hex2 x" by blast
  have colon: "fold_char CHR '':'' = CHR '':''" by code_simp
  from bs(1) obtain y ys where "bs = y # ys" by (cases bs) auto
  with s(1) bs x colon have "length (x # bs) = Suc (Suc n)" "map fold_char s = join_hex (x # bs)"
    by (simp_all flip: x)
  then show ?case by blast
qed

lemma macRegex_groups: "macRegex s = mac_groups (Suc (Suc (Suc (Suc (Suc 0))))) s"
  by (simp add: macRegex_def numeral_eq_Suc)

lemma is_hex_digit: "v < 16 \<Longrightarrow> is_hex (hex_digit v)"
  by (auto simp: is_hex_def hex_digit_def Let_def)

lemma macRegex_macToString: "macRegex (macToString m)"
proof -
  have "unat (x :: byte) div 16 < 16" for x using unat_byte [of x] by simp
  then show ?thesis by (cases m) (simp add: macRegex_groups hex2_def is_hex_digit)
qed

text \<open>C28. An accepted address filter selects exactly one address, whatever the case of its digits, and the
  address the API prints is an accepted filter that selects that address.\<close>

theorem mac_filter_selects_one:
  "(macRegex macFilter \<longrightarrow> (\<exists>!m. \<not> mac_mismatch macFilter m)) \<and>
   macRegex (macToString m) \<and> (\<not> mac_mismatch (macToString m) m' \<longleftrightarrow> m' = m)"
proof (intro conjI impI)
  have mm: "\<not> mac_mismatch f m \<longleftrightarrow> macToString m = map fold_char f" if "f \<noteq> []" for f m
    using that by (simp add: mac_mismatch_def EqualFold_def macToString_join fold_join_hex)
  show "\<exists>!m. \<not> mac_mismatch macFilter m" if f: "macRegex macFilter"
  proof -
    from mac_groups_join [OF f [unfolded macRegex_groups]]
    obtain bs where bs: "length bs = Suc (Suc (Suc (Suc (Suc (Suc 0)))))" "map fold_char macFilter = join_hex bs"
      by blast
    from bs(1) obtain a b c d e g where "bs = [a, b, c, d, e, g]" by (auto simp: length_Suc_conv)
    with bs(2) have "macToString (Mac a b c d e g) = map fold_char macFilter" by (simp add: macToString_join)
    moreover have "macFilter \<noteq> []" using f by (auto simp: macRegex_groups)
    ultimately show ?thesis using mm macToString_inject by metis
  qed
  show "macRegex (macToString m)" by (rule macRegex_macToString)
  have "macToString m \<noteq> []" by (cases m) (simp add: hex2_def)
  with mm [of "macToString m" m'] show "\<not> mac_mismatch (macToString m) m' \<longleftrightarrow> m' = m"
    by (simp add: macToString_join fold_join_hex) (simp add: macToString_join [symmetric] macToString_inject)
qed

theorem mac_filter_selects_one_witness:
  "macRegex ''AA:bb:0c:00:00:01'' \<and> (\<exists>!m. \<not> mac_mismatch ''AA:bb:0c:00:00:01'' m)"
proof -
  have "macRegex ''AA:bb:0c:00:00:01''" by code_simp
  with mac_filter_selects_one [of "''AA:bb:0c:00:00:01''"] show ?thesis by blast
qed

section \<open>Pages of a date window\<close>

lemma make_record_inject: "make_record k c w = make_record k' c' w' \<Longrightarrow> k = k'"
  by (simp add: make_record_def macToString_inject)

lemma distinct_aggregate: "distinct (map snd (aggregate w macFilter ds []))"
proof -
  let ?agg = "aggregate w macFilter ds []"
  have unique: "unique_keys ?agg" by (simp add: unique_keys_aggregate)
  have row: "\<exists>c. v = make_record k c w" if "(k, v) \<in> set ?agg" for k v
    using that unique_keys_map_of [OF unique, of k v] by (auto simp: map_of_aggregate split: if_splits)
  have "inj_on snd (set ?agg)"
  proof (rule inj_onI)
    fix p q assume "p \<in> set ?agg" "q \<in> set ?agg" "snd p = snd q"
    then show "p = q" using row [of "fst p" "snd p"] row [of "fst q" "snd q"] make_record_inject
      by (metis prod.collapse)
  qed
  with unique show ?thesis by (simp add: distinct_map unique_keys_def)
qed

text \<open>Orders that show one record last on the first page's request, and first on every later one's.\<close>

definition avoiding :: "TrafficRecord \<Rightarrow> nat \<Rightarrow> TrafficRecord list \<Rightarrow> TrafficRecord list" where
  "avoiding r i xs =
     (if i = 0 then filter (\<lambda>x. x \<noteq> r) xs @ filter (\<lambda>x. x = r) xs else filter (\<lambda>x. x = r) xs @ filter (\<lambda>x. x \<noteq> r) xs)"

lemma mset_avoiding: "mset (avoiding r i xs) = mset xs"
  by (induction xs) (auto simp: avoiding_def)

lemma avoiding_page:
  assumes "distinct xs" and "r \<in> set xs" and "l < length xs" and "0 < l"
  shows "r \<notin> set (take l (drop (i * l) (avoiding r i xs)))"
proof -
  have one: "filter (\<lambda>x. x = r) xs = [r]" using assms(1,2) by (induction xs) (auto simp: filter_empty_conv)
  define A where "A = filter (\<lambda>x. x \<noteq> r) xs"
  have "r \<notin> set A" by (simp add: A_def)
  then have A: "r \<notin> set (take l (drop n A))" for n by (meson in_set_dropD in_set_takeD)
  have "length A + 1 = length xs" using sum_length_filter_compl [of "\<lambda>x. x = r" xs] one by (simp add: A_def)
  then have "l \<le> length A" using assms(3) by simp
  with A [of 0] A [of "i * l - 1"] assms(4) show ?thesis
    by (cases i) (auto simp: avoiding_def one A_def [symmetric] drop_Cons' )
qed

text \<open>C35. Paging through a date window may lose any record for good. Go chooses a new order of the aggregation
  map for every request. Take the full answer of a window, a page size smaller than its number of
  records, any one record of it, and as many pages as cover that number: there are orders for the
  requests under which every page succeeds, the pages hold as many records together as the full answer,
  all of them from it, and yet the record is on none of them and some other is there twice.\<close>

theorem date_pages_can_repeat:
  assumes "ListDaily io start stop ifaceFilter db = Ok ds" and "int (length ds) \<le> room"
    and "\<forall>xs. mset (rng0 xs) = mset xs"
    and "queryDateRange rng0 io start stop ifaceFilter macFilter room 0 w db = Ok recs"
    and "r \<in> set recs" and "1 \<le> limit" and "limit < int (length recs)" and "int (length recs) \<le> int n * limit"
  shows "\<exists>rng pages. (\<forall>i xs. mset (rng i xs) = mset xs) \<and>
    (\<forall>i. queryDateRange (rng i) io start stop ifaceFilter macFilter limit (int i * limit) w db = Ok (pages i)) \<and>
    (let shown = concat (map pages [0..<n]) in
       length shown = length recs \<and> set shown \<subseteq> set recs \<and> r \<notin> set shown \<and> \<not> distinct shown)"
proof -
  define l where "l = nat limit"
  let ?all = "map snd (aggregate w macFilter ds [])"
  define pages where "pages i = take l (drop (i * l) (avoiding r i ?all))" for i
  have "recs = rng0 ?all"
    using queryDateRange_whole(1) [where rng = rng0 and w = w and macFilter = macFilter, OF _ assms(1,2)] assms(3,4) by simp
  with assms(3) have recs: "mset recs = mset ?all" by simp
  have l: "limit = int l" "0 < l" "l < length recs" "length recs \<le> n * l"
    using assms(6-8) by (simp_all add: l_def) (metis assms(6) int_nat_eq nat_le_iff of_nat_mult order_trans zero_le_one nat_int)
  have all: "distinct ?all" "length ?all = length recs" "set ?all = set recs"
    using recs distinct_aggregate mset_eq_length [OF recs] mset_eq_setD [OF recs] by simp_all
  have page: "queryDateRange (avoiding r i) io start stop ifaceFilter macFilter limit (int i * limit) w db = Ok (pages i)" for i
    using assms(1) by (simp add: queryDateRange_def page_loop_page pages_def l(1) nat_mult_distrib)
  let ?shown = "concat (map pages [0..<n])"
  have "length (avoiding r i ?all) = length ?all" for i using mset_eq_length [OF mset_avoiding] .
  then have "length (pages i) = length (take l (drop (i * l) ?all))" for i by (simp add: pages_def)
  then have "length ?shown = length (concat (map (\<lambda>i. take l (drop (i * l) ?all)) [0..<n]))"
    by (simp add: length_concat comp_def)
  then have len: "length ?shown = length recs" using l(4) all(2) by (simp add: concat_pages)
  have "set (pages i) \<subseteq> set recs" for i
    using mset_eq_setD [OF mset_avoiding [of r i ?all]] all(3) unfolding pages_def by (metis in_set_dropD in_set_takeD subsetI)
  then have sub: "set ?shown \<subseteq> set recs" by auto
  have "r \<notin> set (pages i)" for i
    unfolding pages_def by (rule avoiding_page) (use all l assms(5) in simp_all)
  then have "r \<notin> set ?shown" by simp
  with sub assms(5) have "set ?shown \<subset> set recs" by blast
  then have "card (set ?shown) < length recs" using psubset_card_mono [of "set recs" "set ?shown"] card_length [of recs] by simp
  then have "\<not> distinct ?shown" using len distinct_card [of ?shown] by auto
  with len sub \<open>r \<notin> set ?shown\<close> page show ?thesis
    by (intro exI [of _ "avoiding r"] exI [of _ pages]) (simp add: mset_avoiding Let_def)
qed

theorem date_pages_can_repeat_witness:
  "\<exists>rng1 rng2 a b. (\<forall>xs. mset (rng1 xs) = mset xs) \<and> (\<forall>xs. mset (rng2 xs) = mset xs) \<and>
     queryDateRange rng1 no_faults ''2024-01-01'' ''2024-01-01'' [] [] 1 0 ''today'' two_macs_db = Ok a \<and>
     queryDateRange rng2 no_faults ''2024-01-01'' ''2024-01-01'' [] [] 1 1 ''today'' two_macs_db = Ok b \<and>
     length (a @ b) = 2 \<and> \<not> distinct (a @ b) \<and>
     make_record \<lparr>InterfaceName = [], Ifindex = 2, MAC = Mac 0 0 0 0 0 1\<rparr> (Counters 10 1 10 1 0 0) ''today'' \<notin> set (a @ b)"
proof -
  let ?k = "\<lambda>x. \<lparr>InterfaceName = [], Ifindex = 2, MAC = Mac 0 0 0 0 0 x\<rparr>"
  let ?r = "make_record (?k 1) (Counters 10 1 10 1 0 0) ''today''"
  let ?recs = "[?r, make_record (?k 2) (Counters 20 2 20 2 0 0) ''today'']"
  let ?ds = "[\<lparr>daily_key = ?k 1, daily_DateUTC = ''2024-01-01'', daily_counters = Counters 10 1 10 1 0 0\<rparr>,
    \<lparr>daily_key = ?k 2, daily_DateUTC = ''2024-01-01'', daily_counters = Counters 20 2 20 2 0 0\<rparr>]"
  have list: "ListDaily no_faults ''2024-01-01'' ''2024-01-01'' [] two_macs_db = Ok ?ds" by code_simp
  have all: "queryDateRange id no_faults ''2024-01-01'' ''2024-01-01'' [] [] 100 0 ''today'' two_macs_db = Ok ?recs"
    by code_simp
  obtain rng pages where rng: "\<forall>i xs. mset (rng i xs) = mset (xs :: TrafficRecord list)"
    and page: "\<forall>i. queryDateRange (rng i) no_faults ''2024-01-01'' ''2024-01-01'' [] [] 1 (int i * 1) ''today'' two_macs_db = Ok (pages i)"
    and shown: "let shown = concat (map pages [0..<2]) in
       length shown = length ?recs \<and> set shown \<subseteq> set ?recs \<and> ?r \<notin> set shown \<and> \<not> distinct shown"
    using date_pages_can_repeat [where n = 2 and limit = 1 and r = ?r, OF list _ _ all] by auto
  have "concat (map pages [0..<2]) = pages 0 @ pages 1" by (simp add: numeral_2_eq_2)
  with rng page [rule_format, of 0] page [rule_format, of 1] shown show ?thesis
    by (intro exI [of _ "rng 0"] exI [of _ "rng 1"] exI [of _ "pages 0"] exI [of _ "pages 1"]) (simp add: Let_def)
qed

section \<open>Health\<close>

text \<open>
  What a server relies on of the service it reports: in a known state exactly one of the three
  predicates holds.
\<close>

locale reported_health =
  fixes health :: "'s \<Rightarrow> ServiceHealth" and known :: "'s \<Rightarrow> bool"
  assumes some_mode: "known s \<Longrightarrow> sh_IsHealthy (health s) \<or> sh_IsDegraded (health s) \<or> sh_IsFailed (health s)"
    and healthy_only: "sh_IsHealthy (health s) \<Longrightarrow> \<not> sh_IsDegraded (health s) \<and> \<not> sh_IsFailed (health s)"
begin

lemma healthz_agrees:
  "known s \<Longrightarrow> handleHealthz (health s) flush = 200 \<longleftrightarrow> sr_mode (handleStatus cfg (health s) flush) = ''healthy''"
  using some_mode [of s] healthy_only [of s] by (auto simp: handleHealthz_def handleStatus_def Let_def)

end

interpretation service: reported_health service_health "\<lambda>s. st_Mode (GetStatus s) \<noteq> NoMode"
proof
  fix s :: Service
  show "st_Mode (GetStatus s) \<noteq> NoMode \<Longrightarrow> sh_IsHealthy (service_health s) \<or>
      sh_IsDegraded (service_health s) \<or> sh_IsFailed (service_health s)"
    by (cases "st_Mode (svc_status s)")
      (simp_all add: service_health_def IsHealthy_def IsDegraded_def IsFailed_def GetStatus_def)
  show "sh_IsHealthy (service_health s) \<Longrightarrow> \<not> sh_IsDegraded (service_health s) \<and> \<not> sh_IsFailed (service_health s)"
    by (simp add: service_health_def IsHealthy_def IsDegraded_def IsFailed_def)
qed

text \<open>C29. The two health endpoints agree: \<open>/healthz\<close> answers 200 exactly when the mode \<open>/api/v1/status\<close>
  reports is healthy, for a service whose mode is set; a stale flush loop makes both say no.\<close>

theorem healthz_agrees_with_status:
  assumes "st_Mode (GetStatus s) \<noteq> NoMode"
  shows "(handleHealthz (service_health s) (flush_status now f) = 200 \<longleftrightarrow>
      sr_mode (handleStatus cfg (service_health s) (flush_status now f)) = ''healthy'') \<and>
    (handleHealthz (service_health s) (flush_status now f) = 200 \<longleftrightarrow> IsHealthy s \<and> \<not> IsStale now f)"
  using service.healthz_agrees [OF assms]
  by (simp add: handleHealthz_def service_health_def flush_status_def)

theorem healthz_agrees_with_status_witness:
  "handleHealthz (service_health (NewService New_config [])) (flush_status 3 (NewFlushLoop True None 10)) \<noteq> 200 \<and>
   sr_mode (handleStatus New_config (service_health (NewService New_config []))
     (flush_status 3 (NewFlushLoop True None 10))) \<noteq> ''healthy''"
proof -
  have "st_Mode (GetStatus (NewService New_config [])) \<noteq> NoMode" by (simp add: GetStatus_def NewService_def)
  moreover have "IsStale 3 (NewFlushLoop True None 10)" by (simp add: IsStale_def IsZero_def NewFlushLoop_def)
  ultimately show ?thesis
    using healthz_agrees_with_status [of "NewService New_config []" 3 "NewFlushLoop True None 10" New_config]
    by blast
qed

end
