(* ===== verification/Ledger.thy ===== *)
theory Ledger
  imports Flush
begin

text \<open>
  What the three tables say together. The ledger is the set of database files the program can
  produce: an opened file, then any sequence of flushed entries (with any counters, any failing
  database calls and a clock that does not run backwards), re-openings and prunings.
\<close>

section \<open>The sum of the daily rows\<close>

fun sql_int :: "sqlval \<Rightarrow> int" where
  "sql_int (SqlInt i) = i"
| "sql_int SqlReal = 0"

definition daily_sum :: "database \<Rightarrow> RecordKey \<Rightarrow> int counters" where
  "daily_sum db k =
     (\<Sum>r \<leftarrow> filter (\<lambda>r. fst (fst r) = key_cols k) (daily db). map_counters sql_int (snd r))"

lemma sum_upsert_row:
  fixes f :: "'v \<Rightarrow> 'a::ab_group_add"
  shows "(\<Sum>r \<leftarrow> filter (\<lambda>r. P (fst r)) (upsert_row k new upd t). f (snd r)) =
     (\<Sum>r \<leftarrow> filter (\<lambda>r. P (fst r)) t. f (snd r)) +
     (if P k then (case map_of t k of None \<Rightarrow> f new | Some v \<Rightarrow> f (upd v) - f v) else 0)"
  by (induction k new upd t rule: upsert_row.induct) (auto simp: algebra_simps)

lemma sql_int_SqlInt [simp]: "map_counters sql_int (map_counters SqlInt n) = n"
  by (cases n) simp

lemma daily_sum_add_daily:
  assumes "holds_int (daily_cells db (k, d)) n" and "fits (n + counters_uint c)"
  shows "daily_sum (add_daily (k, d) (sql_of c) db) k' =
     daily_sum db k' + (if k' = k then counters_uint c else 0)"
proof -
  have row: "map_of (daily db) (key_cols k, d) = None \<and> n = 0 \<or>
      map_of (daily db) (key_cols k, d) = Some (map_counters SqlInt n)"
    using assms(1) by (auto simp: holds_int_def daily_cells_def split: option.splits)
  show ?thesis
    using row assms(2)
      sum_upsert_row [where P = "\<lambda>p. fst p = key_cols k'" and f = "map_counters sql_int"
        and k = "(key_cols k, d)" and new = "sql_of c"
        and upd = "\<lambda>row. map2_counters sql_add row (sql_of c)" and t = "daily db"]
    by (auto simp: daily_sum_def add_daily_def sql_of_conv map2_sql_add_fits)
qed

lemma daily_sum_frame [simp]:
  "daily_sum (add_total k v db) k' = daily_sum db k'"
  "daily_sum (put_checkpoint k d v db) k' = daily_sum db k'"
  by (simp_all add: daily_sum_def add_total_def put_checkpoint_def)

section \<open>The ledger\<close>

text \<open>\<open>ledger db d archived\<close>: \<open>db\<close> is reachable when the latest UTC date seen is \<open>d\<close>;
  \<open>archived k\<close> is what pruning has removed for \<open>k\<close>.\<close>

inductive ledger :: "database \<Rightarrow> string \<Rightarrow> (RecordKey \<Rightarrow> int counters) \<Rightarrow> bool" where
  created: "New io empty_file = (Ok (), db) \<Longrightarrow> ledger db d (\<lambda>_. 0)"
| clock: "ledger db d a \<Longrightarrow> d \<le> d' \<Longrightarrow> ledger db d' a"
| flushed: "ledger db d a \<Longrightarrow> flush_entry io d key c db = (r, db') \<Longrightarrow> ledger db' d a"
| reopened: "ledger db d a \<Longrightarrow> New io db = (r, db') \<Longrightarrow> ledger db' d a"
| pruned: "ledger db d a \<Longrightarrow> cutoff \<le> d \<Longrightarrow> PruneDaily io cutoff db = (r, db') \<Longrightarrow>
    ledger db' d (\<lambda>k. a k + (daily_sum db k - daily_sum db' k))"

text \<open>
  The invariant of one key: the day's row equals the raw counters of the last checkpoint, no row lies
  after it, and the all-time row is the sum of the daily rows, pruned ones included, unless that sum
  left the range of an SQL integer.
\<close>

definition total_is :: "sqlval counters option \<Rightarrow> int counters \<Rightarrow> bool" where
  "total_is row n \<longleftrightarrow>
     (case row of None \<Rightarrow> n = 0
      | Some r \<Rightarrow> overflowed r \<or> (r = map_counters SqlInt n \<and> fits n))"

definition today_row :: "database \<Rightarrow> string \<Rightarrow> RecordKey \<Rightarrow> bool" where
  "today_row db d k \<longleftrightarrow>
     (case cp_cells db k of
        None \<Rightarrow> \<forall>d'. daily_cells db (k, d') = None
      | Some (d0, cells) \<Rightarrow> d0 \<le> d \<and> (\<forall>d'. d0 < d' \<longrightarrow> daily_cells db (k, d') = None) \<and>
          (\<exists>raw. cells = sql_of raw \<and> storable raw \<and>
             (holds_int (daily_cells db (k, d0)) (counters_uint raw) \<or>
              (d0 < d \<and> daily_cells db (k, d0) = None))))"

definition key_inv :: "database \<Rightarrow> string \<Rightarrow> (RecordKey \<Rightarrow> int counters) \<Rightarrow> RecordKey \<Rightarrow> bool" where
  "key_inv db d a k \<longleftrightarrow> today_row db d k \<and> total_is (total_cells db k) (daily_sum db k + a k)"

section \<open>One entry keeps the invariant\<close>

lemma GetCheckpoint_Ok_view:
  assumes "GetCheckpoint io k db = Ok cp"
  shows "cp_cells db k = None \<Longrightarrow> cp = None"
    and "cp_cells db k = Some (d, sql_of raw) \<Longrightarrow>
      cp = Some \<lparr>cp_key = k, cp_DateUTC = d, cp_last = raw\<rparr>"
  using assms
  by (auto simp: GetCheckpoint_def query_row_def cp_cells_def wrap_fail_Ok_iff bind_result_Inr_iff)

lemma storable_diff_word:
  "uint (r :: uint64) < 2 ^ 63 \<Longrightarrow> uint (c - r) < 2 ^ 63 \<Longrightarrow> r \<le> c"
  using uint_diff_borrow [of c r] uint_ge_0 [of c] by (cases "c < r") (auto simp: not_less)

lemma storable_diff_le: "storable raw \<Longrightarrow> storable (c - raw) \<Longrightarrow> raw \<le> c"
  by (cases c; cases raw) (simp add: storable_diff_word)

lemma counters_uint_storable_diff:
  "storable raw \<Longrightarrow> storable (c - raw) \<Longrightarrow>
   counters_uint raw + counters_uint (c - raw) = counters_uint c"
  by (simp add: counters_uint_diff storable_diff_le)

text \<open>The delta a flush adds brings the day's row from what it holds to the raw counters.\<close>

lemma entry_base:
  assumes "today_row db d k" and "d \<le> d'" and "GetCheckpoint io k db = Ok cp"
    and "storable (flush_delta cp d' c)"
  obtains n where "holds_int (daily_cells db (k, d')) n"
    and "n + counters_uint (flush_delta cp d' c) = counters_uint c"
    and "\<And>d''. d' < d'' \<Longrightarrow> daily_cells db (k, d'') = None"
proof (cases "cp_cells db k")
  case None
  with assms(1) have "daily_cells db (k, x) = None" for x by (simp add: today_row_def)
  moreover from None assms(3) have "cp = None" by (rule GetCheckpoint_Ok_view(1) [rotated])
  ultimately show ?thesis by (intro that [of 0]) (simp_all add: flush_delta_def)
next
  case (Some p)
  with assms(1) obtain d0 raw where cells: "cp_cells db k = Some (d0, sql_of raw)"
    and d0: "d0 \<le> d" and raw: "storable raw"
    and later: "\<And>x. d0 < x \<Longrightarrow> daily_cells db (k, x) = None"
    and row: "holds_int (daily_cells db (k, d0)) (counters_uint raw) \<or> d0 < d"
    by (auto simp: today_row_def split: prod.splits)
  from assms(3) cells have cp: "cp = Some \<lparr>cp_key = k, cp_DateUTC = d0, cp_last = raw\<rparr>"
    by (rule GetCheckpoint_Ok_view(2))
  show ?thesis
  proof (cases "d0 = d'")
    case True
    with d0 assms(2) row have "holds_int (daily_cells db (k, d')) (counters_uint raw)" by auto
    moreover have "counters_uint raw + counters_uint (flush_delta cp d' c) = counters_uint c"
      using assms(4) raw True by (simp add: cp flush_delta_def counters_uint_storable_diff)
    ultimately show ?thesis using later True by (intro that) auto
  next
    case False
    with d0 assms(2) have "d0 < d'" by auto
    with later False show ?thesis
      by (intro that [of 0]) (auto simp: cp flush_delta_def)
  qed
qed

lemma total_is_add:
  assumes "total_is row n" and "0 \<le> n" and "storable c"
  shows "total_is (Some (case row of None \<Rightarrow> sql_of c | Some r \<Rightarrow> map2_counters sql_add r (sql_of c)))
    (n + counters_uint c)"
proof (cases row)
  case None
  with assms show ?thesis by (simp add: total_is_def sql_of_conv)
next
  case (Some r)
  with assms(1) consider "overflowed r" | "r = map_counters SqlInt n" "fits n"
    by (auto simp: total_is_def)
  then show ?thesis
  proof cases
    case 1
    then show ?thesis by (simp add: Some total_is_def overflowed_stays)
  next
    case 2
    then show ?thesis
      using overflow_marks [of r n c] assms(2)
      by (cases "fits (n + counters_uint c)")
        (auto simp: Some total_is_def sql_of_conv map2_sql_add_fits)
  qed
qed

lemma today_row_mono: "today_row db d k \<Longrightarrow> d \<le> d' \<Longrightarrow> today_row db d' k"
  by (auto simp: today_row_def split: option.splits)

lemma today_row_frame:
  assumes "cp_cells db' k = cp_cells db k" and "\<And>x. daily_cells db' (k, x) = daily_cells db (k, x)"
  shows "today_row db' d k = today_row db d k"
  by (simp add: today_row_def assms split: option.split)

lemma entry_effect_other:
  assumes "k \<noteq> record_key key"
  shows "cp_cells (entry_effect cp d key c db) k = cp_cells db k"
    and "daily_cells (entry_effect cp d key c db) (k, x) = daily_cells db (k, x)"
    and "total_cells (entry_effect cp d key c db) k = total_cells db k"
  using assms by (simp_all add: entry_effect_def persist_def Let_def)

lemma today_row_entry_other:
  "k \<noteq> record_key key \<Longrightarrow> today_row (entry_effect cp d' key c db) d k = today_row db d k"
  by (rule today_row_frame) (simp_all add: entry_effect_other)

lemma daily_sum_add_other [simp]:
  "k' \<noteq> k \<Longrightarrow> daily_sum (add_daily (k, d) v db) k' = daily_sum db k'"
  using sum_upsert_row [where P = "\<lambda>p. fst p = key_cols k'" and f = "map_counters sql_int"
      and k = "(key_cols k, d)" and new = v
      and upd = "\<lambda>row. map2_counters sql_add row v" and t = "daily db"]
  by (simp add: daily_sum_def add_daily_def)

lemma daily_sum_entry_other: "k \<noteq> record_key key \<Longrightarrow> daily_sum (entry_effect cp d key c db) k = daily_sum db k"
  by (simp add: entry_effect_def persist_def Let_def)

lemma key_inv_entry_same:
  assumes inv: "key_inv db d a (record_key key)" and d: "d \<le> d'"
    and get: "GetCheckpoint io (record_key key) db = Ok cp"
    and c: "storable c" and delta: "storable (flush_delta cp d' c)"
    and nonneg: "0 \<le> daily_sum db (record_key key) + a (record_key key)"
  shows "key_inv (entry_effect cp d' key c db) d' a (record_key key)"
    and "daily_sum (entry_effect cp d' key c db) (record_key key) =
      daily_sum db (record_key key) + counters_uint (flush_delta cp d' c)"
proof -
  let ?k = "record_key key" and ?delta = "flush_delta cp d' c"
  let ?db' = "entry_effect cp d' key c db"
  have today: "today_row db d ?k" and total: "total_is (total_cells db ?k) (daily_sum db ?k + a ?k)"
    using inv by (simp_all add: key_inv_def)
  obtain n where row: "holds_int (daily_cells db (?k, d')) n"
    and n: "n + counters_uint ?delta = counters_uint c"
    and later: "\<And>x. d' < x \<Longrightarrow> daily_cells db (?k, x) = None"
    using entry_base [OF today d get delta] by blast
  have fit: "fits (n + counters_uint ?delta)" using c by (simp add: n)
  show sum': "daily_sum ?db' ?k = daily_sum db ?k + counters_uint ?delta"
    using daily_sum_add_daily [of _ ?k d' n ?delta] row fit
    by (auto simp: entry_effect_def persist_def Let_def)
  have "holds_int (daily_cells ?db' (?k, d')) (counters_uint c)"
  proof (cases "?delta = 0")
    case True
    with row n show ?thesis by (simp add: entry_effect_def)
  next
    case False
    with daily_table.acc_exact [OF row fit] n show ?thesis
      by (simp add: entry_effect_def persist_def Let_def sql_of_conv holds_int_def)
  qed
  moreover have "cp_cells ?db' ?k = Some (d', sql_of c)"
    by (simp add: entry_effect_def persist_def Let_def)
  moreover have "\<And>x. d' < x \<Longrightarrow> daily_cells ?db' (?k, x) = None"
    using later by (auto simp: entry_effect_def persist_def Let_def)
  ultimately have "today_row ?db' d' ?k" using c by (auto simp: today_row_def)
  moreover have "total_is (total_cells ?db' ?k) (daily_sum ?db' ?k + a ?k)"
  proof (cases "?delta = 0")
    case True
    with total sum' show ?thesis by (simp add: entry_effect_def)
  next
    case False
    with total_is_add [OF total nonneg delta] sum' show ?thesis
      by (simp add: entry_effect_def persist_def Let_def algebra_simps)
  qed
  ultimately show "key_inv ?db' d' a ?k" by (simp add: key_inv_def)
qed

text \<open>Flushing an entry keeps the invariant of every key, and the sums stay non-negative.\<close>

definition ledger_inv :: "database \<Rightarrow> string \<Rightarrow> (RecordKey \<Rightarrow> int counters) \<Rightarrow> bool" where
  "ledger_inv db d a \<longleftrightarrow> schema_ok db \<and> (\<forall>k. key_inv db d a k \<and> 0 \<le> daily_sum db k + a k)"

lemma ledger_inv_entry:
  assumes "ledger_inv db d a" and "d \<le> d'" and "flush_entry io d' key c db = (r, db')"
  shows "ledger_inv db' d' a"
proof (cases rule: flush_entry_cases [of io d' key c db])
  case fail
  with assms show ?thesis by (auto simp: ledger_inv_def key_inv_def intro: today_row_mono)
next
  case ok
  with assms(3) obtain cp where get: "GetCheckpoint io (record_key key) db = Ok cp"
    and c: "storable c" and delta: "storable (flush_delta cp d' c)"
    and db': "db' = entry_effect cp d' key c db"
    by (auto elim: flush_entry_Ok)
  have "key_inv db' d' a k \<and> 0 \<le> daily_sum db' k + a k" for k
  proof (cases "k = record_key key")
    case True
    have inv: "key_inv db d a (record_key key)"
      and nonneg: "0 \<le> daily_sum db (record_key key) + a (record_key key)"
      using assms(1) by (simp_all add: ledger_inv_def)
    note same = key_inv_entry_same [OF inv assms(2) get c delta nonneg]
    have "0 \<le> (daily_sum db (record_key key) + a (record_key key)) + counters_uint (flush_delta cp d' c)"
      by (rule add_nonneg_nonneg [OF nonneg]) simp
    with same show ?thesis by (simp add: True db' ac_simps)
  next
    case False
    with assms(1,2) show ?thesis
      by (auto simp: ledger_inv_def key_inv_def db' daily_sum_entry_other entry_effect_other
          today_row_entry_other intro: today_row_mono)
  qed
  with assms(1) show ?thesis by (simp add: ledger_inv_def db')
qed

section \<open>The ledger keeps the invariant\<close>

lemma daily_sum_same: "daily db' = daily db \<Longrightarrow> daily_sum db' k = daily_sum db k"
  by (simp add: daily_sum_def)

lemma empty_file_views [simp]:
  "cp_cells empty_file k = None" "daily_cells empty_file kd = None"
  "total_cells empty_file k = None" "daily_sum empty_file k = 0"
  by (simp_all add: empty_file_def cp_cells_def daily_cells_def total_cells_def daily_sum_def)

lemma New_ledger_frame [simp]:
  "daily_sum (snd (New io db)) k = daily_sum db k"
  "today_row (snd (New io db)) d k = today_row db d k"
  by (rule daily_sum_same today_row_frame; simp)+

lemma ledger_inv_New: "ledger_inv db d a \<Longrightarrow> ledger_inv (snd (New io db)) d a"
  by (simp add: ledger_inv_def key_inv_def New_schema_mono)

lemma today_row_prune:
  assumes "today_row db d k" and "cutoff \<le> d"
  shows "today_row (snd (PruneDaily io cutoff db)) d k"
proof (cases "cp_cells db k")
  case None
  with assms(1) PruneDaily_daily [of io cutoff db k] show ?thesis
    by (auto simp: today_row_def)
next
  case (Some p)
  obtain d0 cells where p: "p = (d0, cells)" by (cases p)
  from PruneDaily_daily [of io cutoff db k d0] assms(2)
  have "daily_cells (snd (PruneDaily io cutoff db)) (k, d0) = daily_cells db (k, d0) \<or>
      (d0 < d \<and> daily_cells (snd (PruneDaily io cutoff db)) (k, d0) = None)" by auto
  moreover have "d0 < x \<Longrightarrow> daily_cells db (k, x) = None \<Longrightarrow>
      daily_cells (snd (PruneDaily io cutoff db)) (k, x) = None" for x
    using PruneDaily_daily [of io cutoff db k x] by auto
  ultimately show ?thesis using assms(1) by (auto simp: today_row_def Some p)
qed

lemma ledger_invariant: "ledger db d a \<Longrightarrow> ledger_inv db d a"
proof (induction rule: ledger.induct)
  case (created io db d)
  then have db: "db = snd (New io empty_file)" by simp
  from created show ?case
    by (auto simp: ledger_inv_def key_inv_def today_row_def total_is_def db dest: New_schema_ok)
next
  case (clock db d a d')
  then show ?case by (auto simp: ledger_inv_def key_inv_def intro: today_row_mono)
next
  case (flushed db d a io key c r db')
  then show ?case by (blast intro: ledger_inv_entry)
next
  case (reopened db d a io r db')
  then show ?case using ledger_inv_New [of db d a io] by simp
next
  case (pruned db d a cutoff io r db')
  have db': "db' = snd (PruneDaily io cutoff db)" using pruned.hyps by simp
  from pruned.IH pruned.hyps(2) show ?case
    by (auto simp: ledger_inv_def key_inv_def db' today_row_prune algebra_simps)
qed

section \<open>Flushes are runs of the ledger\<close>

lemma ledger_flush_entry: "ledger db d a \<Longrightarrow> ledger (snd (flush_entry io d key c db)) d a"
  by (cases "flush_entry io d key c db") (auto dest: ledger.flushed)

lemma flush_loop_ledger:
  "flush_loop m io today n mi db = Some (r, db') \<Longrightarrow> ledger db today a \<Longrightarrow> ledger db' today a"
  by (induction rule: flush_loop_induct) (auto intro: ledger.flushed)

lemma Flush_ledger:
  assumes "Flush io now0 now1 f db = Some (r, f', db')" and "ledger db d a"
    and "d \<le> CurrentDateUTC now0"
  shows "ledger db' (CurrentDateUTC now0) a"
proof -
  have "ledger db (CurrentDateUTC now0) a" using assms(2,3) by (rule ledger.clock)
  with assms(1) show ?thesis
    by (auto simp: Flush_def split: option.splits prod.splits sum.splits intro: flush_loop_ledger)
qed

end
