(* ===== verification/Accounting.thy ===== *)
theory Accounting
  imports Ledger
begin

text \<open>
  What a reader of the tables can rely on after a flush, and where the accounting departs from the
  traffic: the properties of the flush as a whole, over the ledger's invariant.
\<close>

section \<open>Reading through the repository\<close>

lemma ledger_today:
  assumes "ledger db d a" and "GetCheckpoint no_faults k db = Ok (Some cp)" and "cp_DateUTC cp = d"
  shows "cp_cells db k = Some (d, sql_of (cp_last cp))" and "storable (cp_last cp)"
    and "holds_int (daily_cells db (k, d)) (counters_uint (cp_last cp))"
proof -
  have inv: "today_row db d k" using ledger_invariant [OF assms(1)]
    by (simp add: ledger_inv_def key_inv_def)
  have "cp_cells db k \<noteq> None" using GetCheckpoint_Ok_view(1) [OF assms(2)] by blast
  with inv obtain d0 raw where cells: "cp_cells db k = Some (d0, sql_of raw)" and raw: "storable raw"
    and row: "holds_int (daily_cells db (k, d0)) (counters_uint raw) \<or> d0 < d"
    by (auto simp: today_row_def split: prod.splits)
  from GetCheckpoint_Ok_view(2) [OF assms(2) cells]
  have cp: "cp = \<lparr>cp_key = k, cp_DateUTC = d0, cp_last = raw\<rparr>" by simp
  with assms(3) cells raw row show "cp_cells db k = Some (d, sql_of (cp_last cp))"
    and "storable (cp_last cp)" and "holds_int (daily_cells db (k, d)) (counters_uint (cp_last cp))"
    by auto
qed

lemma ledger_schema: "ledger db d a \<Longrightarrow> schema_ok db"
  using ledger_invariant by (auto simp: ledger_inv_def)

lemma holds_int_sql_of_iff:
  "holds_int row (counters_uint c) \<longleftrightarrow> row = Some (sql_of c) \<or> (row = None \<and> c = 0)"
  using counters_uint_inject [of c 0] by (auto simp: holds_int_def sql_of_conv split: option.splits)

lemma GetTotal_Ok_view:
  assumes "GetTotal io k db = Ok t"
  shows "(case t of None \<Rightarrow> total_cells db k = None
     | Some r \<Rightarrow> \<exists>cells. total_cells db k = Some cells \<and> scan_counters cells = Ok (total_counters r))"
  using assms
  by (auto simp: GetTotal_def query_row_def total_cells_def wrap_fail_Ok_iff bind_result_Inr_iff
      scan_total_def split: option.splits)

lemma scan_fits:
  assumes "fits n" and "scan_counters (map_counters SqlInt n) = Ok c"
  shows "counters_uint c = n"
proof -
  define u :: TrafficCounters where "u = map_counters word_of_int n"
  have "n = counters_uint u"
    using assms(1) by (cases n) (simp add: u_def uint_word_of_int_eq take_bit_int_eq_self)
  then show ?thesis using assms(2) by (simp add: sql_of_conv [symmetric])
qed

section \<open>After a successful flush\<close>

lemma flush_entry_keeps_cp:
  "flush_entry io d key c db = (r, db') \<Longrightarrow> k \<noteq> key \<Longrightarrow>
   cp_cells db' (record_key k) = cp_cells db (record_key k)"
  by (cases r) (auto dest: flush_entry_Fail elim!: flush_entry_Ok simp: entry_effect_other)

lemma flush_entry_sets_cp:
  "flush_entry io d key c db = (Ok (), db') \<Longrightarrow>
   cp_cells db' (record_key key) = Some (d, sql_of c) \<and> storable c"
  by (erule flush_entry_Ok) (auto simp: entry_effect_def persist_def Let_def)

lemma flush_entries_keep_cp:
  "flush_entries io d n kvs db = (r, db') \<Longrightarrow> k \<notin> fst ` set kvs \<Longrightarrow>
   cp_cells db' (record_key k) = cp_cells db (record_key k)"
proof (induction kvs arbitrary: n db)
  case (Cons p kvs)
  obtain key c where p: "p = (key, c)" by (cases p)
  obtain r1 db1 where step: "flush_entry (io n) d key c db = (r1, db1)" by fastforce
  with Cons.prems p flush_entry_keeps_cp [OF step, of k] show ?case
    by (cases r1) (auto dest: Cons.IH)
qed simp

text \<open>The checkpoint of a key is at the counters that were flushed last.\<close>

lemma flush_entries_set_cp:
  assumes "flush_entries io d n kvs db = (Ok (), db')" and "map_of (rev kvs) k = Some c"
  shows "cp_cells db' (record_key k) = Some (d, sql_of c) \<and> storable c"
  using assms
proof (induction kvs arbitrary: n db)
  case (Cons p kvs)
  obtain key v where p: "p = (key, v)" by (cases p)
  obtain r1 db1 where step: "flush_entry (io n) d key v db = (r1, db1)" by fastforce
  with Cons.prems(1) p have rest: "flush_entries io d (Suc n) kvs db1 = (Ok (), db')"
    and ok: "r1 = Ok ()" by (auto split: sum.splits)
  show ?case
  proof (cases "map_of (rev kvs) k")
    case None
    with Cons.prems(2) p have "k = key" "v = c" by (auto simp: map_add_def split: if_splits)
    moreover from None have "k \<notin> fst ` set kvs" by (simp add: map_of_eq_None_iff)
    ultimately show ?thesis using flush_entries_keep_cp [OF rest] flush_entry_sets_cp step ok by auto
  next
    case (Some c')
    with Cons.prems(2) p have "c' = c" by (simp add: map_add_def)
    with Cons.IH [OF rest] Some show ?thesis by simp
  qed
qed simp

lemma Flush_reads_cp:
  assumes "Flush io now0 now1 (with_map f m) db = Some (Ok (), f', db')" and "reads m Iterate es mi"
    and "map_of (rev es) key = Some c"
  shows "cp_cells db' (record_key key) = Some (CurrentDateUTC now0, sql_of c) \<and> storable c"
  using assms(1,3) flush_entries_set_cp [of io "CurrentDateUTC now0" 0 es db db' key c]
  by (auto simp: Flush_reads [OF assms(2)] split: prod.splits sum.splits)

lemma map_of_rev_clearjunk [simp]: "map_of (rev (AList.clearjunk m)) = map_of m"
proof -
  have "map_of (rev (AList.clearjunk m)) = map_of (AList.clearjunk m)"
    by (subst map_of_inject_set) (simp_all add: distinct_clearjunk rev_map [symmetric])
  then show ?thesis by (simp add: AList.map_of_clearjunk)
qed

lemma Flush_snapshot:
  "Flush io now0 now1 (with_map f (snapshot m)) db =
     (case flush_entries io (CurrentDateUTC now0) 0 (AList.clearjunk m) db of
        (Inl e, db') \<Rightarrow> Some (Fail e, with_map f (snapshot m), db')
      | (Inr _, db') \<Rightarrow>
          Some (Ok (), (with_map f (snapshot m))\<lparr>fl_lastFlush := now1, fl_flushErr := None\<rparr>, db'))"
  by (auto simp: Flush_def with_map_def TrafficMap_Map_def rest.flush_loop_terminates
      split: prod.splits sum.splits)

lemma Flush_snapshot_cp:
  assumes "Flush io now0 now1 (with_map f (snapshot m)) db = Some (Ok (), f', db')"
    and "map_of m key = Some c"
  shows "cp_cells db' (record_key key) = Some (CurrentDateUTC now0, sql_of c) \<and> storable c"
proof -
  have "flush_entries io (CurrentDateUTC now0) 0 (AList.clearjunk m) db = (Ok (), db')"
    using assms(1) by (auto simp: Flush_snapshot split: prod.splits sum.splits)
  moreover have "map_of (rev (AList.clearjunk m)) key = Some c"
    using assms(2) by simp
  ultimately show ?thesis by (rule flush_entries_set_cp)
qed

section \<open>Flushing again\<close>

lemma entry_effect_settled:
  assumes "cp_cells db (record_key key) = Some (d, sql_of c)"
  shows "flush_delta (Some \<lparr>cp_key = record_key key, cp_DateUTC = d, cp_last = c\<rparr>) d c = 0"
  by (simp add: flush_delta_def)

lemma put_checkpoint_settled:
  assumes "cp_cells db k = Some (d, v)"
  shows "put_checkpoint k d v db = db"
proof -
  have "upsert_row x w (\<lambda>_. w) t = t" if "map_of t x = Some w" for t x and w :: "string \<times> sqlval counters"
    using that by (induction t) (auto split: if_splits)
  from this [of "checkpoints db" "key_cols k" "(d, v)"] assms show ?thesis
    by (simp add: put_checkpoint_def cp_cells_def)
qed

lemma flush_entry_settled:
  assumes "schema_ok db" and "cp_cells db (record_key key) = Some (d, sql_of c)" and "storable c"
  shows "flush_entry no_faults d key c db = (Ok (), db)"
proof -
  let ?cp = "Some \<lparr>cp_key = record_key key, cp_DateUTC = d, cp_last = c\<rparr>"
  have "GetCheckpoint no_faults (record_key key) db = Ok ?cp"
    using assms by (simp add: GetCheckpoint_view no_faults_def)
  with assms have "flush_entry no_faults d key c db = (Ok (), entry_effect ?cp d key c db)"
    by (intro flush_entry_no_faults) (simp_all add: flush_delta_def)
  with assms(2) show ?thesis
    by (simp add: entry_effect_def flush_delta_def put_checkpoint_settled)
qed

lemma flush_entries_settled:
  assumes "schema_ok db"
    and "\<forall>p \<in> set kvs. cp_cells db (record_key (fst p)) = Some (d, sql_of (snd p)) \<and> storable (snd p)"
  shows "flush_entries (\<lambda>_. no_faults) d n kvs db = (Ok (), db)"
  using assms(2)
proof (induction kvs arbitrary: n)
  case (Cons p kvs)
  then show ?case by (cases p) (simp add: flush_entry_settled assms(1))
qed simp

lemma flush_entries_append_fail:
  assumes "flush_entries io d n pre db = (Ok (), db1)"
    and "flush_entry (io (n + length pre)) d key c db1 = (Fail e, db2)"
  shows "flush_entries io d n (pre @ (key, c) # post) db = (Fail e, db1)"
  using assms
proof (induction pre arbitrary: n db)
  case Nil
  then show ?case by (auto dest: flush_entry_Fail)
next
  case (Cons p pre)
  then show ?case by (cases p) (auto split: prod.splits sum.splits)
qed

section \<open>A single day\<close>

text \<open>As long as the date does not change, the all-time row and the day's row are the same.\<close>

definition one_day :: "database \<Rightarrow> string \<Rightarrow> bool" where
  "one_day db d \<longleftrightarrow> (\<forall>k. total_cells db k = daily_cells db (k, d))"

lemma one_day_entry: "one_day db d \<Longrightarrow> one_day (snd (flush_entry io d key c db)) d"
proof (cases rule: flush_entry_cases [of io d key c db])
  case (ok db')
  assume "one_day db d"
  with ok show ?thesis
    by (auto simp: one_day_def entry_effect_def persist_def Let_def elim!: flush_entry_Ok)
qed simp

lemma one_day_entries: "one_day db d \<Longrightarrow> one_day (snd (flush_entries io d n kvs db)) d"
proof (induction kvs arbitrary: n db)
  case (Cons p kvs)
  obtain key c where p: "p = (key, c)" by (cases p)
  show ?case
    using one_day_entry [OF Cons.prems, of "io n" key c] Cons.IH
    by (auto simp: p split: prod.splits sum.splits)
qed simp

text \<open>A run of flushes of snapshots, each with its own failures and clock readings.\<close>

type_synonym flush_event = "(nat \<Rightarrow> db_io) \<times> time \<times> time \<times> kmap"

definition flush_event :: "FlushLoop \<Rightarrow> flush_event \<Rightarrow> database \<Rightarrow> unit result \<times> database" where
  "flush_event f ev db =
     (case ev of (io, now0, now1, m) \<Rightarrow>
        (case Flush io now0 now1 (with_map f (snapshot m)) db of
           Some (r, f', db') \<Rightarrow> (r, db')
         | None \<Rightarrow> (Ok (), db)))"

definition event_date :: "flush_event \<Rightarrow> string" where
  "event_date ev = CurrentDateUTC (fst (snd ev))"

definition flush_events :: "FlushLoop \<Rightarrow> flush_event list \<Rightarrow> database \<Rightarrow> database" where
  "flush_events f evs db = fold (\<lambda>ev db. snd (flush_event f ev db)) evs db"

lemma flush_event_eq:
  "flush_event f (io, now0, now1, m) db =
     flush_entries io (CurrentDateUTC now0) 0 (AList.clearjunk m) db"
  by (auto simp: flush_event_def Flush_snapshot split: prod.splits sum.splits)

lemma one_day_events:
  assumes "one_day db d" and "\<forall>ev \<in> set evs. event_date ev = d"
  shows "one_day (flush_events f evs db) d"
  using assms
proof (induction evs arbitrary: db)
  case (Cons ev evs)
  obtain io now0 now1 m where ev: "ev = (io, now0, now1, m)" by (cases ev) auto
  with Cons.prems have "one_day (snd (flush_event f ev db)) d"
    by (auto simp: flush_event_eq event_date_def one_day_entries)
  with Cons.IH [of "snd (flush_event f ev db)"] Cons.prems show ?case by (simp add: flush_events_def)
qed (simp add: flush_events_def)

lemma ledger_events:
  assumes "ledger db d a" and "\<forall>ev \<in> set evs. event_date ev = d"
  shows "ledger (flush_events f evs db) d a"
  using assms
proof (induction evs arbitrary: db)
  case (Cons ev evs)
  obtain io now0 now1 m where ev: "ev = (io, now0, now1, m)" by (cases ev) auto
  have "ledger (snd (flush_event f ev db)) d a"
    using Flush_ledger [of io now0 now1 "with_map f (snapshot m)" db _ _ _ d a] Cons.prems
    by (auto simp: ev flush_event_def event_date_def split: option.splits)
  with Cons.IH [of "snd (flush_event f ev db)"] Cons.prems show ?case by (simp add: flush_events_def)
qed (simp add: flush_events_def)

lemma flushed_day_row:
  assumes "ledger db d a" and "d \<le> CurrentDateUTC now0"
    and "Flush io now0 now1 (with_map f m) db = Some (Ok (), f', db')"
    and "reads m Iterate es mi" and "map_of (rev es) key = Some c" and "c \<noteq> 0"
  shows "ledger db' (CurrentDateUTC now0) a"
    and "daily_cells db' (record_key key, CurrentDateUTC now0) = Some (sql_of c)"
proof -
  from assms(3,1,2) show led: "ledger db' (CurrentDateUTC now0) a" by (rule Flush_ledger)
  from ledger_schema [OF led] Flush_reads_cp [OF assms(3-5)]
  have "GetCheckpoint no_faults (record_key key) db' =
      Ok (Some \<lparr>cp_key = record_key key, cp_DateUTC = CurrentDateUTC now0, cp_last = c\<rparr>)"
    by (simp add: GetCheckpoint_view no_faults_def)
  from ledger_today(3) [OF led this] assms(6)
  show "daily_cells db' (record_key key, CurrentDateUTC now0) = Some (sql_of c)"
    by (simp add: holds_int_sql_of_iff)
qed

lemma first_day_total_row:
  assumes "New io0 empty_file = (Ok (), db)" and "\<forall>ev \<in> set evs. event_date ev = CurrentDateUTC now0"
    and "Flush io now0 now1 (with_map f (snapshot m)) (flush_events f evs db) = Some (Ok (), f', db')"
    and "map_of m key = Some c" and "c \<noteq> 0"
  shows "schema_ok db'" and "total_cells db' (record_key key) = Some (sql_of c)"
proof -
  let ?d = "CurrentDateUTC now0"
  have "db = snd (New io0 empty_file)" using assms(1) by simp
  then have "one_day db ?d" by (simp add: one_day_def)
  then have "one_day (flush_events f evs db) ?d" using assms(2) by (rule one_day_events)
  then have "one_day (snd (flush_event f (io, now0, now1, m) (flush_events f evs db))) ?d"
    by (simp add: flush_event_eq one_day_entries)
  then have day: "one_day db' ?d" using assms(3) by (simp add: flush_event_def)
  have "ledger (flush_events f evs db) ?d (\<lambda>_. 0)"
    using ledger.created [OF assms(1)] assms(2) by (rule ledger_events)
  moreover obtain mi where "reads (snapshot m) Iterate (AList.clearjunk m) mi" using rest.reads_entries by blast
  moreover have "map_of (rev (AList.clearjunk m)) key = Some c"
    using assms(4) by simp
  ultimately have row: "ledger db' ?d (\<lambda>_. 0)" "daily_cells db' (record_key key, ?d) = Some (sql_of c)"
    using flushed_day_row [OF _ order_refl assms(3)] assms(5) by blast+
  from row day show "schema_ok db'" and "total_cells db' (record_key key) = Some (sql_of c)"
    by (simp_all add: one_day_def ledger_schema)
qed

section \<open>Sample data for the witnesses\<close>

definition fresh_db :: database where
  "fresh_db = snd (New no_faults empty_file)"

definition sample_key :: TrafficKey where
  "sample_key = \<lparr>key_Ifindex = 2, key_Mac = Mac 0xaa 0xbb 0xcc 0xdd 0xee 0xff\<rparr>"

definition sample_counters :: TrafficCounter where
  "sample_counters = Counters 1500 2 1000 1 500 1"

definition sample_loop :: FlushLoop where
  "sample_loop = NewFlushLoop True None 10"

text \<open>Noon of 2024-01-01 and noon of the next day.\<close>

definition noon1 :: time where "noon1 = 738885 * day_ns + 43200 * 1000000000"
definition noon2 :: time where "noon2 = 738886 * day_ns + 43200 * 1000000000"

lemma New_fresh: "New no_faults empty_file = (Ok (), fresh_db)"
  unfolding fresh_db_def by code_simp

lemma fresh_ledger: "ledger fresh_db d (\<lambda>_. 0)"
  using New_fresh by (rule ledger.created)

lemma noon_dates:
  "CurrentDateUTC noon1 = ''2024-01-01''" "CurrentDateUTC noon2 = ''2024-01-02''"
  by code_simp+

lemma sample_flush_ok:
  "map_option fst (Flush (\<lambda>_. no_faults) noon1 noon1
     (with_map sample_loop (snapshot [(sample_key, sample_counters)])) fresh_db) = Some (Ok ())"
  by code_simp

section \<open>Properties\<close>

text \<open>C6. A flush that returned no error has come to the end of its iteration over the traffic map, however
  the map changed meanwhile and whichever read ended it. Of every key it read, the row of the current
  UTC day then holds exactly the counters read last, whatever failed, restarted or was pruned before,
  unless these are all zero. The clock must not have gone back behind the database's latest day.\<close>

theorem flush_makes_day_current:
  assumes "ledger db d a" and "d \<le> CurrentDateUTC now0"
    and "Flush io now0 now1 (with_map f m) db = Some (Ok (), f', db')"
  shows "\<exists>es mi. reads m Iterate es mi \<and>
    (\<forall>key c. map_of (rev es) key = Some c \<longrightarrow> c \<noteq> 0 \<longrightarrow>
      GetDaily no_faults (record_key key) (CurrentDateUTC now0) db' =
        Ok (Some \<lparr>daily_key = record_key key, daily_DateUTC = CurrentDateUTC now0, daily_counters = c\<rparr>))"
proof -
  obtain es mi where reads: "reads m Iterate es mi" using assms(3) by (rule Flush_Ok_reads)
  have "GetDaily no_faults (record_key key) (CurrentDateUTC now0) db' =
        Ok (Some \<lparr>daily_key = record_key key, daily_DateUTC = CurrentDateUTC now0, daily_counters = c\<rparr>)"
    if "map_of (rev es) key = Some c" "c \<noteq> 0" for key c
    using flushed_day_row [OF assms reads that] by (simp add: GetDaily_view ledger_schema no_faults_def)
  with reads show ?thesis by blast
qed

lemma sample_reads_entry:
  "reads (snapshot [(sample_key, sample_counters)]) Iterate es mi \<Longrightarrow> es = [(sample_key, sample_counters)]"
  using rest.reads_entries [of "[(sample_key, sample_counters)]"] reads_deterministic by (simp add: AList.delete_eq) blast

theorem flush_makes_day_current_witness:
  "\<exists>f' db'. Flush (\<lambda>_. no_faults) noon1 noon1
       (with_map sample_loop (snapshot [(sample_key, sample_counters)])) fresh_db = Some (Ok (), f', db') \<and>
     GetDaily no_faults (record_key sample_key) ''2024-01-01'' db' =
       Ok (Some \<lparr>daily_key = record_key sample_key, daily_DateUTC = ''2024-01-01'',
         daily_counters = sample_counters\<rparr>)"
proof -
  obtain f' db' where run: "Flush (\<lambda>_. no_faults) noon1 noon1
      (with_map sample_loop (snapshot [(sample_key, sample_counters)])) fresh_db = Some (Ok (), f', db')"
    using sample_flush_ok by auto
  have "sample_counters \<noteq> 0" by (simp add: sample_counters_def)
  moreover obtain es mi where "reads (snapshot [(sample_key, sample_counters)]) Iterate es mi"
    and "\<forall>key c. map_of (rev es) key = Some c \<longrightarrow> c \<noteq> 0 \<longrightarrow>
      GetDaily no_faults (record_key key) (CurrentDateUTC noon1) db' =
        Ok (Some \<lparr>daily_key = record_key key, daily_DateUTC = CurrentDateUTC noon1, daily_counters = c\<rparr>)"
    using flush_makes_day_current [OF fresh_ledger order_refl run] by blast
  ultimately show ?thesis using run sample_reads_entry [of es mi] by (simp add: noon_dates)
qed

text \<open>On the first day of a new database, the all-time row of an entry also holds exactly its raw
  counters after a successful flush, however many flushes of that day failed or succeeded before.\<close>

lemma first_day_totals_exact:
  assumes "New io0 empty_file = (Ok (), db)" and "\<forall>ev \<in> set evs. event_date ev = CurrentDateUTC now0"
    and "Flush io now0 now1 (with_map f (snapshot m)) (flush_events f evs db) = Some (Ok (), f', db')"
    and "map_of m key = Some c" and "c \<noteq> 0"
  shows "GetTotal no_faults (record_key key) db' =
    Ok (Some \<lparr>total_key = record_key key, total_counters = c\<rparr>)"
  using first_day_total_row [OF assms] by (simp add: GetTotal_view no_faults_def)

text \<open>C2. The all-time row of a key, when it can be read, is the sum of the key's daily rows, those
  already pruned included: no failure, restart or pruning separates the two tables.\<close>

theorem totals_are_sum_of_days:
  assumes "ledger db d archived" and "GetTotal io k db = Ok (Some t)"
  shows "counters_uint (total_counters t) = daily_sum db k + archived k"
proof -
  from GetTotal_Ok_view [OF assms(2)] obtain cells where cells: "total_cells db k = Some cells"
    and scan: "scan_counters cells = Ok (total_counters t)" by auto
  then have "\<not> overflowed cells" using overflowed_unreadable by fastforce
  moreover have "total_is (total_cells db k) (daily_sum db k + archived k)"
    using ledger_invariant [OF assms(1)] by (simp add: ledger_inv_def key_inv_def)
  ultimately have "cells = map_counters SqlInt (daily_sum db k + archived k)"
    and "fits (daily_sum db k + archived k)" by (auto simp: total_is_def cells)
  with scan_fits scan show ?thesis by auto
qed

lemma sample_entry_ok:
  "fst (flush_entry no_faults ''2024-01-01'' sample_key sample_counters fresh_db) = Ok ()"
  by code_simp

definition sample_db :: database where
  "sample_db = snd (flush_entry no_faults ''2024-01-01'' sample_key sample_counters fresh_db)"

lemma sample_ledger: "ledger sample_db ''2024-01-01'' (\<lambda>_. 0)"
  unfolding sample_db_def by (rule ledger_flush_entry) (rule fresh_ledger)

lemma sample_reads:
  "GetTotal no_faults (record_key sample_key) sample_db =
     Ok (Some \<lparr>total_key = record_key sample_key, total_counters = sample_counters\<rparr>)"
  "GetCheckpoint no_faults (record_key sample_key) sample_db =
     Ok (Some \<lparr>cp_key = record_key sample_key, cp_DateUTC = ''2024-01-01'', cp_last = sample_counters\<rparr>)"
  by code_simp+

theorem totals_are_sum_of_days_witness:
  "counters_uint sample_counters = daily_sum sample_db (record_key sample_key) + 0"
  using totals_are_sum_of_days [OF sample_ledger sample_reads(1)] by simp

text \<open>C32. At the first flush of a new UTC day an entry whose counters have not moved since its
  checkpoint is counted again: its raw counters are added to the all-time row a second time.\<close>

theorem rollover_counts_again:
  assumes "ledger db d a" and "d \<le> today"
    and "GetCheckpoint no_faults (record_key key) db = Ok (Some cp)"
    and "cp_DateUTC cp \<noteq> today" and "cp_last cp \<noteq> 0"
    and "GetTotal no_faults (record_key key) db = Ok (Some t)"
    and "fits (counters_uint (total_counters t) + counters_uint (cp_last cp))"
  shows "\<exists>t'. GetTotal no_faults (record_key key)
        (snd (flush_entry no_faults today key (cp_last cp) db)) = Ok (Some t') \<and>
      total_counters t' = total_counters t + cp_last cp"
proof -
  let ?k = "record_key key" and ?c = "cp_last cp"
  have sch: "schema_ok db" using assms(1) by (rule ledger_schema)
  have delta: "flush_delta (Some cp) today ?c = ?c" using assms(4) by (simp add: flush_delta_def)
  have st: "storable ?c"
    using fits_add_left [of "counters_uint ?c" "counters_uint (total_counters t)"] assms(7)
    by (simp add: add.commute)
  then have "flush_entry no_faults today key ?c db = (Ok (), entry_effect (Some cp) today key ?c db)"
    using sch assms(3) by (intro flush_entry_no_faults) (simp_all add: delta)
  then have db': "snd (flush_entry no_faults today key ?c db) = persist ?k today ?c ?c db"
    using assms(5) by (simp add: entry_effect_def delta Let_def)
  from GetTotal_Ok_view [OF assms(6)] obtain cells where cells: "total_cells db ?k = Some cells"
    and scan: "scan_counters cells = Ok (total_counters t)" by auto
  then have "\<not> overflowed cells" using overflowed_unreadable by fastforce
  moreover have "total_is (total_cells db ?k) (daily_sum db ?k + a ?k)"
    using ledger_invariant [OF assms(1)] by (simp add: ledger_inv_def key_inv_def)
  ultimately have "cells = sql_of (total_counters t)"
    using scan scan_fits [of "daily_sum db ?k + a ?k"] by (auto simp: total_is_def cells sql_of_conv)
  then have "total_cells (persist ?k today ?c ?c db) ?k =
      Some (map_counters SqlInt (counters_uint (total_counters t) + counters_uint ?c))"
    using assms(7) by (simp add: persist_def cells sql_of_conv map2_sql_add_fits)
  also have "counters_uint (total_counters t) + counters_uint ?c = counters_uint (total_counters t + ?c)"
    using assms(7) by (rule counters_uint_add_fits)
  finally have "total_cells (persist ?k today ?c ?c db) ?k = Some (sql_of (total_counters t + ?c))"
    by (simp add: sql_of_conv)
  then have "GetTotal no_faults ?k (persist ?k today ?c ?c db) =
      Ok (Some \<lparr>total_key = ?k, total_counters = total_counters t + ?c\<rparr>)"
    by (intro GetTotal_view) (simp_all add: persist_def sch no_faults_def)
  then show ?thesis by (simp add: db')
qed

theorem rollover_counts_again_witness:
  "\<exists>t'. GetTotal no_faults (record_key sample_key)
        (snd (flush_entry no_faults ''2024-01-02'' sample_key sample_counters sample_db)) = Ok (Some t') \<and>
      total_counters t' = Counters 3000 4 2000 2 1000 2"
  using rollover_counts_again [OF sample_ledger _ sample_reads(2) _ _ sample_reads(1), of "''2024-01-02''"]
  by (simp add: sample_counters_def less_eq_char_def)

text \<open>C33. After a restart within the same UTC day the kernel counters start again from zero: as long as
  any of an entry's counters is below its checkpoint, flushing the entry fails whatever the database
  does, and nothing of its traffic is recorded.\<close>

theorem restart_same_day_rejected:
  assumes "ledger db d a" and "GetCheckpoint no_faults (record_key key) db = Ok (Some cp)"
    and "cp_DateUTC cp = d" and "\<not> cp_last cp \<le> c"
  shows "\<exists>e. flush_entry io d key c db = (Fail e, db)"
proof (cases rule: flush_entry_cases [of io d key c db])
  case (ok db')
  note cells = ledger_today [OF assms(1-3)]
  obtain cp' where get: "GetCheckpoint io (record_key key) db = Ok cp'"
    and delta: "storable (flush_delta cp' d c)"
    using ok by (rule flush_entry_Ok)
  from GetCheckpoint_Ok_view(2) [OF get cells(1)] delta have "storable (c - cp_last cp)"
    by (simp add: flush_delta_def)
  with cells(2) assms(4) have False by (blast dest: storable_diff_le)
  then show ?thesis ..
qed auto

theorem restart_same_day_rejected_witness:
  "\<exists>e. flush_entry no_faults ''2024-01-01'' sample_key (Counters 60 1 60 1 0 0) sample_db =
     (Fail e, sample_db)"
  by (rule restart_same_day_rejected [OF sample_ledger sample_reads(2)])
    (simp_all add: sample_counters_def)

text \<open>C31. A flush stops at the first entry that fails: the entries before it stay persisted, the
  entries after it are not looked at, and neither the time of the last flush nor the stored flush
  error change.\<close>

theorem Flush_stops_at_error:
  assumes "AList.clearjunk m = pre @ (key, c) # post"
    and "flush_entries io (CurrentDateUTC now0) 0 pre db = (Ok (), db1)"
    and "flush_entry (io (length pre)) (CurrentDateUTC now0) key c db1 = (Fail e, db2)"
  shows "Flush io now0 now1 (with_map f (snapshot m)) db = Some (Fail e, with_map f (snapshot m), db1)"
  using flush_entries_append_fail [OF assms(2), of key c e db2 post] assms(3)
  by (simp add: Flush_snapshot assms(1))

lemma sample_restart_fails:
  "case flush_entry no_faults ''2024-01-01'' sample_key (Counters 60 1 60 1 0 0) sample_db of
     (r, _) \<Rightarrow> r = Fail (Errorf ''persisting for (%d, %x): %w'' (key_args sample_key @
       [AErr (wrap_err ''upserting total: %w'' (Errorf
         ''sql: converting argument $%d type: uint64 values with high bit set are not supported'' [AInt 4]))]))"
  by code_simp

theorem Flush_stops_at_error_witness:
  "\<exists>e. Flush (\<lambda>_. no_faults) noon1 noon1
       (with_map sample_loop (snapshot [(sample_key, Counters 60 1 60 1 0 0),
          (\<lparr>key_Ifindex = 3, key_Mac = Mac 0 0 0 0 0 1\<rparr>, sample_counters)])) sample_db =
     Some (Fail e, with_map sample_loop (snapshot [(sample_key, Counters 60 1 60 1 0 0),
          (\<lparr>key_Ifindex = 3, key_Mac = Mac 0 0 0 0 0 1\<rparr>, sample_counters)]), sample_db)"
proof -
  obtain e db2 where fails: "flush_entry no_faults ''2024-01-01'' sample_key (Counters 60 1 60 1 0 0) sample_db =
      (Fail e, db2)" using sample_restart_fails by auto
  have "AList.clearjunk [(sample_key, Counters 60 1 60 1 0 0),
      (\<lparr>key_Ifindex = 3, key_Mac = Mac 0 0 0 0 0 1\<rparr>, sample_counters)] =
      [] @ (sample_key, Counters 60 1 60 1 0 0) # [(\<lparr>key_Ifindex = 3, key_Mac = Mac 0 0 0 0 0 1\<rparr>, sample_counters)]"
    by (simp add: sample_key_def AList.delete_eq)
  from Flush_stops_at_error [OF this, where io = "\<lambda>_. no_faults" and db = sample_db] fails
  show ?thesis by (auto simp: noon_dates)
qed

text \<open>C14. Flushing the same map contents again on the same UTC day changes nothing in the database:
  repeated flushes never count traffic twice within a day.\<close>

theorem Flush_idempotent:
  assumes "ledger db d a" and "d \<le> CurrentDateUTC now0"
    and "Flush io now0 now1 (with_map f (snapshot m)) db = Some (Ok (), f', db')"
    and "CurrentDateUTC now2 = CurrentDateUTC now0"
  shows "\<exists>f''. Flush (\<lambda>_. no_faults) now2 now3 (with_map f' (snapshot m)) db' = Some (Ok (), f'', db') \<and>
    LastFlush f'' = now3 \<and> FlushError f'' = None"
proof -
  from assms(3,1,2) have led: "ledger db' (CurrentDateUTC now0) a" by (rule Flush_ledger)
  have "\<forall>p \<in> set (AList.clearjunk m). cp_cells db' (record_key (fst p)) =
      Some (CurrentDateUTC now0, sql_of (snd p)) \<and> storable (snd p)"
    using Flush_snapshot_cp [OF assms(3)] map_of_is_SomeI [OF distinct_clearjunk]
    by (metis AList.map_of_clearjunk prod.collapse)
  with ledger_schema [OF led]
  have "flush_entries (\<lambda>_. no_faults) (CurrentDateUTC now0) 0 (AList.clearjunk m) db' = (Ok (), db')"
    by (rule flush_entries_settled)
  then show ?thesis by (simp add: Flush_snapshot assms(4) LastFlush_def FlushError_def)
qed

theorem Flush_idempotent_witness:
  "\<exists>f' db' f''. Flush (\<lambda>_. no_faults) noon1 noon1
       (with_map sample_loop (snapshot [(sample_key, sample_counters)])) fresh_db = Some (Ok (), f', db') \<and>
     Flush (\<lambda>_. no_faults) noon1 (noon1 + 1) (with_map f' (snapshot [(sample_key, sample_counters)])) db' =
       Some (Ok (), f'', db')"
proof -
  obtain f' db' where run: "Flush (\<lambda>_. no_faults) noon1 noon1
      (with_map sample_loop (snapshot [(sample_key, sample_counters)])) fresh_db = Some (Ok (), f', db')"
    using sample_flush_ok by auto
  from Flush_idempotent [OF fresh_ledger order_refl run refl] run show ?thesis by blast
qed

text \<open>C12. A flush of a map at rest ends, whatever the database does: it visits each key once and returns.
  When it reports success every entry of the map has its checkpoint at today's date and its current
  counters; when it reports an error the loop's own state is as before.\<close>

theorem Flush_returns:
  "\<exists>r f' db'. Flush io now0 now1 (with_map f (snapshot m)) db = Some (r, f', db') \<and>
     (case r of
        Inr _ \<Rightarrow> fl_lastFlush f' = now1 \<and> fl_flushErr f' = None \<and>
          (\<forall>key c. map_of m key = Some c \<longrightarrow>
             cp_cells db' (record_key key) = Some (CurrentDateUTC now0, sql_of c))
      | Inl _ \<Rightarrow> f' = with_map f (snapshot m))"
proof (cases "flush_entries io (CurrentDateUTC now0) 0 (AList.clearjunk m) db")
  case (Pair r db')
  show ?thesis
  proof (cases r)
    case (Inr u)
    with Pair have run: "Flush io now0 now1 (with_map f (snapshot m)) db =
        Some (Ok (), (with_map f (snapshot m))\<lparr>fl_lastFlush := now1, fl_flushErr := None\<rparr>, db')"
      by (simp add: Flush_snapshot)
    with Flush_snapshot_cp [OF run] show ?thesis by simp
  qed (use Pair in \<open>simp add: Flush_snapshot\<close>)
qed

theorem Flush_returns_witness:
  "\<exists>r f' db'. Flush (\<lambda>_. no_faults) noon1 noon1 (with_map sample_loop (snapshot [(sample_key, sample_counters)])) fresh_db
     = Some (r, f', db') \<and> cp_cells db' (record_key sample_key) = Some (''2024-01-01'', sql_of sample_counters)"
proof -
  obtain f' db' where run: "Flush (\<lambda>_. no_faults) noon1 noon1
      (with_map sample_loop (snapshot [(sample_key, sample_counters)])) fresh_db = Some (Ok (), f', db')"
    using sample_flush_ok by auto
  then show ?thesis
    using Flush_returns [of "\<lambda>_. no_faults" noon1 noon1 sample_loop "[(sample_key, sample_counters)]" fresh_db]
    by (auto simp: noon_dates)
qed

end
