(* ===== verification/Repository.thy ===== *)
theory Repository
  imports Flush
begin

text \<open>
  What the repository promises to its clients: an abstract store of counters, and the methods of
  \<open>internal/storage/storage.go\<close> as operations on it. The store holds the \<open>uint64\<close> counters of the Go
  structs in three finite maps; \<open>represents\<close> relates a database file to it. The relation holds as long
  as every sum stays in the range of an SQL integer; the last section shows what happens when one
  does not.
\<close>

section \<open>The abstract store\<close>

record store =
  st_totals :: "RecordKey \<rightharpoonup> TrafficCounters"
  st_daily :: "RecordKey \<times> string \<rightharpoonup> TrafficCounters"
  st_checkpoints :: "RecordKey \<rightharpoonup> string \<times> TrafficCounters"

definition empty_store :: store where
  "empty_store = \<lparr>st_totals = (\<lambda>_. None), st_daily = (\<lambda>_. None), st_checkpoints = (\<lambda>_. None)\<rparr>"

text \<open>Adding a delta to an entry; an absent entry starts with it.\<close>

definition accumulate :: "'k \<Rightarrow> TrafficCounters \<Rightarrow> ('k \<rightharpoonup> TrafficCounters) \<Rightarrow> ('k \<rightharpoonup> TrafficCounters)" where
  "accumulate k delta m = m(k \<mapsto> (case m k of None \<Rightarrow> delta | Some c \<Rightarrow> c + delta))"

definition room :: "TrafficCounters option \<Rightarrow> TrafficCounters \<Rightarrow> bool" where
  "room old delta \<longleftrightarrow> storable delta \<and>
     (case old of None \<Rightarrow> True | Some c \<Rightarrow> fits (counters_uint c + counters_uint delta))"

definition own_keys :: "database \<Rightarrow> bool" where
  "own_keys db \<longleftrightarrow> fst ` set (totals db) \<subseteq> range key_cols \<and>
     fst ` fst ` set (daily db) \<subseteq> range key_cols \<and> fst ` set (checkpoints db) \<subseteq> range key_cols"

definition represents :: "database \<Rightarrow> store \<Rightarrow> bool" where
  "represents db st \<longleftrightarrow> wf_db db \<and> own_keys db \<and>
     (\<forall>k. total_cells db k = map_option sql_of (st_totals st k)) \<and>
     (\<forall>kd. daily_cells db kd = map_option sql_of (st_daily st kd)) \<and>
     (\<forall>k. cp_cells db k = map_option (map_prod id sql_of) (st_checkpoints st k))"

lemma representsD:
  assumes "represents db st"
  shows "schema_ok db" and "wf_db db" and "own_keys db"
    and "total_cells db k = map_option sql_of (st_totals st k)"
    and "daily_cells db kd = map_option sql_of (st_daily st kd)"
    and "cp_cells db k = map_option (map_prod id sql_of) (st_checkpoints st k)"
  using assms unfolding represents_def wf_db_def by blast+

section \<open>Every operation simulates its abstract counterpart\<close>

lemma own_keys_updates [intro]:
  assumes "own_keys db"
  shows "own_keys (add_total k v db)" "own_keys (add_daily kd v db)" "own_keys (put_checkpoint k d v db)"
  using assms
  by (auto simp: own_keys_def add_total_def add_daily_def put_checkpoint_def fst_set_upsert_row)

lemma represents_add_total:
  assumes "represents db st" and "room (st_totals st k) delta"
  shows "represents (add_total k (sql_of delta) db) (st\<lparr>st_totals := accumulate k delta (st_totals st)\<rparr>)"
  using representsD [OF assms(1)] assms(2)
  by (auto simp: represents_def accumulate_def room_def sql_of_add split: option.splits)

lemma represents_add_daily:
  assumes "represents db st" and "room (st_daily st kd) delta"
  shows "represents (add_daily kd (sql_of delta) db) (st\<lparr>st_daily := accumulate kd delta (st_daily st)\<rparr>)"
  using representsD [OF assms(1)] assms(2)
  by (auto simp: represents_def accumulate_def room_def sql_of_add split: option.splits)

lemma represents_put_checkpoint:
  assumes "represents db st"
  shows "represents (put_checkpoint k d (sql_of raw) db) (st\<lparr>st_checkpoints := (st_checkpoints st)(k \<mapsto> (d, raw))\<rparr>)"
  using representsD [OF assms] by (auto simp: represents_def)

lemma daily_cells_filter:
  "daily_cells (db\<lparr>daily := filter (\<lambda>((k, d), row). \<not> d < cutoff) (daily db)\<rparr>) (k, d) =
     (if d < cutoff then None else daily_cells db (k, d))"
  using map_of_filter_key [of "\<lambda>(k, d). \<not> d < cutoff" "daily db" "(key_cols k, d)"]
  by (simp add: daily_cells_def case_prod_unfold)

lemma own_keys_prune: "own_keys db \<Longrightarrow> own_keys (db\<lparr>daily := filter P (daily db)\<rparr>)"
proof -
  have "fst ` fst ` set (filter P (daily db)) \<subseteq> fst ` fst ` set (daily db)" by (intro image_mono) auto
  then show "own_keys db \<Longrightarrow> ?thesis" by (simp add: own_keys_def subset_trans)
qed

lemma represents_prune:
  assumes "represents db st"
  shows "represents (db\<lparr>daily := filter (\<lambda>((k, d), row). \<not> d < cutoff) (daily db)\<rparr>)
    (st\<lparr>st_daily := (\<lambda>(k, d). if d < cutoff then None else st_daily st (k, d))\<rparr>)"
proof -
  let ?kept = "filter (\<lambda>((k, d), row). \<not> d < cutoff) (daily db)"
  have "own_keys (db\<lparr>daily := ?kept\<rparr>)" using representsD(3) [OF assms] by (rule own_keys_prune)
  moreover have "wf_db (db\<lparr>daily := ?kept\<rparr>)"
    using representsD(2) [OF assms] by (simp add: wf_db_def schema_ok_def unique_keys_filter)
  moreover have "total_cells (db\<lparr>daily := ?kept\<rparr>) k = total_cells db k" "cp_cells (db\<lparr>daily := ?kept\<rparr>) k = cp_cells db k" for k
    by (simp_all add: total_cells_def cp_cells_def)
  ultimately show ?thesis
    using representsD(4-6) [OF assms] by (auto simp: represents_def daily_cells_filter)
qed

lemma represents_new: "represents (snd (New no_faults empty_file)) empty_store"
proof -
  have "totals (snd (New no_faults empty_file)) = [] \<and> daily (snd (New no_faults empty_file)) = [] \<and>
      checkpoints (snd (New no_faults empty_file)) = []" by code_simp
  moreover have "New no_faults empty_file = (Ok (), snd (New no_faults empty_file))" by code_simp
  then have "schema_ok (snd (New no_faults empty_file))" by (rule New_schema_ok)
  ultimately show ?thesis
    by (simp add: represents_def wf_db_def own_keys_def empty_store_def total_cells_def daily_cells_def cp_cells_def)
qed

text \<open>C3. The repository implements an abstract store of counters: while every written value and every sum
  stays below $2^{63}$ and the driver reports no failure, each write succeeds and does to the file what
  it does to the store (upserts accumulate, checkpoints replace, pruning removes the days before the
  cutoff), and each read returns what the store holds, or nothing for an absent key.\<close>

theorem repository_implements_store:
  assumes "represents db st"
  shows "(room (st_totals st k) delta \<longrightarrow> (\<exists>db'. UpsertTotal no_faults k delta db = (Ok (), db') \<and>
      represents db' (st\<lparr>st_totals := accumulate k delta (st_totals st)\<rparr>))) \<and>
    (room (st_daily st (k, d)) delta \<longrightarrow> (\<exists>db'. UpsertDaily no_faults k d delta db = (Ok (), db') \<and>
      represents db' (st\<lparr>st_daily := accumulate (k, d) delta (st_daily st)\<rparr>))) \<and>
    (storable raw \<longrightarrow> (\<exists>db'. UpsertCheckpoint no_faults k d raw db = (Ok (), db') \<and>
      represents db' (st\<lparr>st_checkpoints := (st_checkpoints st)(k \<mapsto> (d, raw))\<rparr>))) \<and>
    (\<exists>n db'. PruneDaily no_faults d db = (Ok n, db') \<and>
      represents db' (st\<lparr>st_daily := (\<lambda>(k, x). if x < d then None else st_daily st (k, x))\<rparr>)) \<and>
    GetTotal no_faults k db = Ok (map_option (\<lambda>c. \<lparr>total_key = k, total_counters = c\<rparr>) (st_totals st k)) \<and>
    GetDaily no_faults k d db =
      Ok (map_option (\<lambda>c. \<lparr>daily_key = k, daily_DateUTC = d, daily_counters = c\<rparr>) (st_daily st (k, d))) \<and>
    GetCheckpoint no_faults k db =
      Ok (map_option (\<lambda>(d, c). \<lparr>cp_key = k, cp_DateUTC = d, cp_last = c\<rparr>) (st_checkpoints st k))"
proof (intro conjI impI)
  note r = representsD [OF assms]
  have q: "no_faults Query = None" by (simp add: no_faults_def)
  { assume "room (st_totals st k) delta"
    then show "\<exists>db'. UpsertTotal no_faults k delta db = (Ok (), db') \<and>
        represents db' (st\<lparr>st_totals := accumulate k delta (st_totals st)\<rparr>)"
      using upsert_shapes(1) [OF r(1)] represents_add_total [OF assms] by (auto simp: room_def) }
  { assume "room (st_daily st (k, d)) delta"
    then show "\<exists>db'. UpsertDaily no_faults k d delta db = (Ok (), db') \<and>
        represents db' (st\<lparr>st_daily := accumulate (k, d) delta (st_daily st)\<rparr>)"
      using upsert_shapes(2) [OF r(1)] represents_add_daily [OF assms] by (auto simp: room_def) }
  { assume "storable raw"
    then show "\<exists>db'. UpsertCheckpoint no_faults k d raw db = (Ok (), db') \<and>
        represents db' (st\<lparr>st_checkpoints := (st_checkpoints st)(k \<mapsto> (d, raw))\<rparr>)"
      using upsert_shapes(3) [OF r(1)] represents_put_checkpoint [OF assms] by auto }
  show "\<exists>n db'. PruneDaily no_faults d db = (Ok n, db') \<and>
      represents db' (st\<lparr>st_daily := (\<lambda>(k, x). if x < d then None else st_daily st (k, x))\<rparr>)"
    using represents_prune [OF assms] require_table_ok [OF r(1)]
    by (simp add: PruneDaily_def no_faults_def Let_def)
  show "GetTotal no_faults k db = Ok (map_option (\<lambda>c. \<lparr>total_key = k, total_counters = c\<rparr>) (st_totals st k))"
    using GetTotal_view [where io = no_faults, OF r(1) q] r(4) [of k] by (cases "st_totals st k") simp_all
  show "GetDaily no_faults k d db =
      Ok (map_option (\<lambda>c. \<lparr>daily_key = k, daily_DateUTC = d, daily_counters = c\<rparr>) (st_daily st (k, d)))"
    using GetDaily_view [where io = no_faults, OF r(1) q] r(5) [of "(k, d)"] by (cases "st_daily st (k, d)") simp_all
  show "GetCheckpoint no_faults k db =
      Ok (map_option (\<lambda>(d, c). \<lparr>cp_key = k, cp_DateUTC = d, cp_last = c\<rparr>) (st_checkpoints st k))"
    using GetCheckpoint_view [where io = no_faults, OF r(1) q] r(6) [of k] by (cases "st_checkpoints st k") auto
qed

theorem repository_implements_store_witness:
  "\<exists>db. UpsertTotal no_faults \<lparr>InterfaceName = ''eth0'', Ifindex = 2, MAC = Mac 1 2 3 4 5 6\<rparr>
       (Counters 60 1 60 1 0 0) (snd (New no_faults empty_file)) = (Ok (), db) \<and>
     represents db (empty_store\<lparr>st_totals := accumulate \<lparr>InterfaceName = ''eth0'', Ifindex = 2, MAC = Mac 1 2 3 4 5 6\<rparr>
       (Counters 60 1 60 1 0 0) (\<lambda>_. None)\<rparr>)"
  using repository_implements_store [OF represents_new,
      where k = "\<lparr>InterfaceName = ''eth0'', Ifindex = 2, MAC = Mac 1 2 3 4 5 6\<rparr>"
        and delta = "Counters 60 1 60 1 0 0", THEN conjunct1]
  by (simp add: empty_store_def room_def)

section \<open>Listing\<close>

text \<open>The rows of one listing: no fault, every row readable, in the order of the primary key.\<close>

lemma query_rows_ok:
  assumes "require_table name db = Ok ()" and "\<And>r. r \<in> set rows \<Longrightarrow> scan r = Ok (f r)"
  shows "query_rows no_faults lm sm im name scan db rows = Ok (map f rows)"
  using assms by (simp add: query_rows_def no_faults_def scan_rows_ok)

lemma daily_rows_of_store:
  assumes "represents db st"
  shows "((p, d), r) \<in> set (daily db) \<longleftrightarrow>
    (\<exists>k c. p = key_cols k \<and> st_daily st (k, d) = Some c \<and> r = sql_of c)"
proof
  assume row: "((p, d), r) \<in> set (daily db)"
  then have "p \<in> fst ` fst ` set (daily db)" by (force simp: image_iff)
  then obtain k where p: "p = key_cols k"
    using representsD(3) [OF assms] unfolding own_keys_def by blast
  have "map_of (daily db) (p, d) = Some r"
    using row representsD(2) [OF assms] by (simp add: wf_db_def unique_keys_def)
  then have "daily_cells db (k, d) = Some r" by (simp add: daily_cells_def p)
  then show "\<exists>k c. p = key_cols k \<and> st_daily st (k, d) = Some c \<and> r = sql_of c"
    using representsD(5) [OF assms, of "(k, d)"] p by auto
next
  assume "\<exists>k c. p = key_cols k \<and> st_daily st (k, d) = Some c \<and> r = sql_of c"
  then obtain k c where "p = key_cols k" "st_daily st (k, d) = Some c" "r = sql_of c" by blast
  then have "map_of (daily db) (p, d) = Some r"
    using representsD(5) [OF assms, of "(k, d)"] by (simp add: daily_cells_def)
  then show "((p, d), r) \<in> set (daily db)" by (rule map_of_SomeD)
qed

lemma fst_key_cols [simp]: "fst (key_cols k) = InterfaceName k"
  by (simp add: key_cols_def)

lemma distinct_map_fst_sort: "unique_keys t \<Longrightarrow> distinct (map fst (sort_key fst (filter P t)))"
  using unique_keys_filter [of t P] unfolding unique_keys_def distinct_map by (simp only: distinct_sort set_sort)

lemma scan_rows_length: "scan_rows io sm im scan n rows = Ok xs \<Longrightarrow> length xs = length rows"
proof (induction rows arbitrary: n xs)
  case (Cons r rows)
  then show ?case
    by (auto simp: scan_rows.simps [of io sm im scan n] bind_result_Inr_iff split: option.splits)
qed (auto simp: scan_rows.simps split: option.splits)

lemma ListDaily_length: "ListDaily io x y iface db = Ok ds \<Longrightarrow> length ds \<le> length (daily db)"
  by (auto simp: ListDaily_def query_rows_def bind_result_Inr_iff dest!: scan_rows_length intro: length_filter_le)

text \<open>A date range whose rows are all readable is listed completely, in order and without repetition.\<close>

lemma ListDaily_rows:
  assumes "schema_ok db" and "unique_keys (daily db)"
    and "\<And>p d r. ((p, d), r) \<in> set (daily db) \<Longrightarrow> dateStart \<le> d \<Longrightarrow> d \<le> dateEnd \<Longrightarrow>
      \<exists>k c. p = key_cols k \<and> r = sql_of c"
  obtains rs where "ListDaily no_faults dateStart dateEnd iface db = Ok rs"
    and "sorted (map (\<lambda>r. (key_cols (daily_key r), daily_DateUTC r)) rs)"
    and "distinct (map (\<lambda>r. (key_cols (daily_key r), daily_DateUTC r)) rs)"
    and "\<And>x. x \<in> set rs \<longleftrightarrow> (\<exists>k d c. x = \<lparr>daily_key = k, daily_DateUTC = d, daily_counters = c\<rparr> \<and>
      ((key_cols k, d), sql_of c) \<in> set (daily db) \<and> (iface = [] \<or> InterfaceName k = iface) \<and>
      dateStart \<le> d \<and> d \<le> dateEnd)"
proof -
  define rows where "rows = sort_key fst (filter (\<lambda>((k, d), row). iface_matches iface k \<and>
    d \<ge> dateStart \<and> d \<le> dateEnd) (daily db))"
  define f where "f row = projr (scan_daily row)" for row
  have mem: "((p, d), r) \<in> set rows \<longleftrightarrow> ((p, d), r) \<in> set (daily db) \<and> (iface = [] \<or> fst p = iface) \<and>
      dateStart \<le> d \<and> d \<le> dateEnd" for p d r
    unfolding rows_def set_sort set_filter mem_Collect_eq prod.case iface_matches_def by presburger
  have f_row: "f ((key_cols k, d), sql_of c) = \<lparr>daily_key = k, daily_DateUTC = d, daily_counters = c\<rparr>" for k d c
    by (simp add: f_def)
  have row: "\<exists>k d c. row = ((key_cols k, d), sql_of c)" if "row \<in> set rows" for row
  proof -
    obtain p d r where row: "row = ((p, d), r)" by (metis prod.collapse)
    with that mem assms(3) [of p d r] show ?thesis by blast
  qed
  have ok: "scan_daily row = Ok (f row)" "(key_cols (daily_key (f row)), daily_DateUTC (f row)) = fst row"
    if "row \<in> set rows" for row using row [OF that] by (auto simp: f_row)
  have keys: "map (\<lambda>r. (key_cols (daily_key r), daily_DateUTC r)) (map f rows) = map fst rows"
    unfolding map_map comp_def using ok(2) by (intro map_cong refl) blast
  show thesis
  proof (rule that [of "map f rows"])
    show "ListDaily no_faults dateStart dateEnd iface db = Ok (map f rows)"
      unfolding ListDaily_def rows_def [symmetric] using assms(1) ok(1) by (intro query_rows_ok require_table_ok)
    show "sorted (map (\<lambda>r. (key_cols (daily_key r), daily_DateUTC r)) (map f rows))"
      unfolding keys unfolding rows_def by (rule sorted_sort_key)
    show "distinct (map (\<lambda>r. (key_cols (daily_key r), daily_DateUTC r)) (map f rows))"
      unfolding keys unfolding rows_def using assms(2) by (rule distinct_map_fst_sort)
    fix x
    have "x \<in> set (map f rows) \<longleftrightarrow> (\<exists>k d c. x = f ((key_cols k, d), sql_of c) \<and> ((key_cols k, d), sql_of c) \<in> set rows)"
      using row unfolding set_map image_iff by metis
    then show "x \<in> set (map f rows) \<longleftrightarrow> (\<exists>k d c. x = \<lparr>daily_key = k, daily_DateUTC = d, daily_counters = c\<rparr> \<and>
        ((key_cols k, d), sql_of c) \<in> set (daily db) \<and> (iface = [] \<or> InterfaceName k = iface) \<and>
        dateStart \<le> d \<and> d \<le> dateEnd)"
      unfolding f_row mem fst_key_cols .
  qed
qed

text \<open>C15. \<open>ListDaily\<close> returns exactly the days the store holds in the requested range, for the requested
  interface or for all when the filter is empty: no row is missing, none is repeated, and they come in
  the order of interface name, ifindex, MAC and date.\<close>

theorem ListDaily_exact:
  assumes "represents db st"
  shows "\<exists>rs. ListDaily no_faults dateStart dateEnd iface db = Ok rs \<and>
    sorted (map (\<lambda>r. (key_cols (daily_key r), daily_DateUTC r)) rs) \<and> distinct rs \<and>
    set rs = {\<lparr>daily_key = k, daily_DateUTC = d, daily_counters = c\<rparr> | k d c.
      st_daily st (k, d) = Some c \<and> dateStart \<le> d \<and> d \<le> dateEnd \<and>
      (iface = [] \<or> InterfaceName k = iface)}"
proof -
  have rows: "\<exists>k c. p = key_cols k \<and> r = sql_of c" if "((p, d), r) \<in> set (daily db)" for p d r
    using that daily_rows_of_store [OF assms] by blast
  have uniq: "unique_keys (daily db)" using representsD(2) [OF assms] by (simp add: wf_db_def)
  obtain rs where list: "ListDaily no_faults dateStart dateEnd iface db = Ok rs"
    and sorted: "sorted (map (\<lambda>r. (key_cols (daily_key r), daily_DateUTC r)) rs)"
    and distinct: "distinct (map (\<lambda>r. (key_cols (daily_key r), daily_DateUTC r)) rs)"
    and set: "\<And>x. x \<in> set rs \<longleftrightarrow> (\<exists>k d c. x = \<lparr>daily_key = k, daily_DateUTC = d, daily_counters = c\<rparr> \<and>
      ((key_cols k, d), sql_of c) \<in> set (daily db) \<and> (iface = [] \<or> InterfaceName k = iface) \<and>
      dateStart \<le> d \<and> d \<le> dateEnd)"
    using ListDaily_rows [OF representsD(1) [OF assms] uniq, of dateStart dateEnd] rows by blast
  have "((key_cols k, d), sql_of c) \<in> set (daily db) \<longleftrightarrow> st_daily st (k, d) = Some c" for k d c
    unfolding daily_rows_of_store [OF assms] key_cols_inject sql_of_inject by blast
  then have "set rs = {\<lparr>daily_key = k, daily_DateUTC = d, daily_counters = c\<rparr> | k d c.
      st_daily st (k, d) = Some c \<and> dateStart \<le> d \<and> d \<le> dateEnd \<and> (iface = [] \<or> InterfaceName k = iface)}"
    unfolding set_eq_iff set mem_Collect_eq by blast
  moreover have "distinct rs" using distinct unfolding distinct_map by (rule conjunct1)
  ultimately show ?thesis using list sorted by blast
qed

theorem ListDaily_exact_witness:
  "\<exists>rs. ListDaily no_faults ''2026-01-01'' ''2026-01-31'' []
      (add_daily (\<lparr>InterfaceName = ''eth0'', Ifindex = 2, MAC = Mac 1 2 3 4 5 6\<rparr>, ''2026-01-05'')
        (sql_of (Counters 60 1 60 1 0 0)) (snd (New no_faults empty_file))) = Ok rs \<and> distinct rs \<and>
    set rs = {\<lparr>daily_key = \<lparr>InterfaceName = ''eth0'', Ifindex = 2, MAC = Mac 1 2 3 4 5 6\<rparr>,
      daily_DateUTC = ''2026-01-05'', daily_counters = Counters 60 1 60 1 0 0\<rparr>}"
proof -
  let ?k = "\<lparr>InterfaceName = ''eth0'', Ifindex = 2, MAC = Mac 1 2 3 4 5 6\<rparr>"
  let ?c = "Counters 60 1 60 1 0 0"
  have "''2026-01-01'' \<le> ''2026-01-05'' \<and> ''2026-01-05'' \<le> ''2026-01-31''" by code_simp
  moreover have "room (st_daily empty_store (?k, ''2026-01-05'')) ?c" by (simp add: empty_store_def room_def)
  note represents_add_daily [OF represents_new this]
  ultimately show ?thesis
    using ListDaily_exact [where dateStart = "''2026-01-01''" and dateEnd = "''2026-01-31''" and iface = "[]"]
    by (fastforce simp: empty_store_def accumulate_def split: if_splits)
qed

section \<open>The files the program can produce\<close>

text \<open>
  The files that come out of opening a new database and running any sequence of the writing methods
  and of the flush loop's transaction, with any failures of the driver on the way.
\<close>

inductive repo_file :: "database \<Rightarrow> bool" where
  created: "New io empty_file = (Ok (), db) \<Longrightarrow> repo_file db"
| reopened: "repo_file db \<Longrightarrow> repo_file (snd (New io db))"
| total: "repo_file db \<Longrightarrow> repo_file (snd (UpsertTotal io k c db))"
| day: "repo_file db \<Longrightarrow> repo_file (snd (UpsertDaily io k d c db))"
| checkpoint: "repo_file db \<Longrightarrow> repo_file (snd (UpsertCheckpoint io k d c db))"
| flushed: "repo_file db \<Longrightarrow> repo_file (snd (persistAll io k d c raw db))"
| pruned: "repo_file db \<Longrightarrow> repo_file (snd (PruneDaily io d db))"

text \<open>A stored cell is a non-negative integer, or the mark of a sum that left the range.\<close>

fun clean_val :: "sqlval \<Rightarrow> bool" where
  "clean_val (SqlInt i) \<longleftrightarrow> 0 \<le> i \<and> i < 2 ^ 63"
| "clean_val SqlReal \<longleftrightarrow> True"

definition clean_row :: "sqlval counters \<Rightarrow> bool" where
  "clean_row r \<longleftrightarrow> (\<forall>v \<in> set_counters r. clean_val v)"

definition clean_file :: "database \<Rightarrow> bool" where
  "clean_file db \<longleftrightarrow> wf_db db \<and> own_keys db \<and>
     (\<forall>k r. total_cells db k = Some r \<longrightarrow> clean_row r) \<and>
     (\<forall>kd r. daily_cells db kd = Some r \<longrightarrow> clean_row r) \<and>
     (\<forall>k d r. cp_cells db k = Some (d, r) \<longrightarrow> (\<exists>c. r = sql_of c))"

lemma clean_add: "clean_val a \<Longrightarrow> clean_val b \<Longrightarrow> clean_val (sql_add a b)"
  by (cases a; cases b) (auto simp: int64_range_def)

lemma clean_row_simps [simp]:
  "clean_row (Counters a b c d e f) \<longleftrightarrow> clean_val a \<and> clean_val b \<and> clean_val c \<and> clean_val d \<and>
     clean_val e \<and> clean_val f"
  by (simp add: clean_row_def)

lemma clean_row_add: "clean_row r \<Longrightarrow> clean_row v \<Longrightarrow> clean_row (map2_counters sql_add r v)"
  by (cases r; cases v) (simp add: clean_add)

lemma clean_row_sql_of: "storable c \<Longrightarrow> clean_row (sql_of c)"
  by (cases c) (simp add: sql_of_def)

lemma clean_row_scan:
  assumes "clean_row r"
  shows "overflowed r \<or> (\<exists>c. r = sql_of c)"
proof (cases "overflowed r")
  case False
  define word :: "sqlval \<Rightarrow> uint64" where "word v = (case v of SqlInt i \<Rightarrow> of_int i | SqlReal \<Rightarrow> 0)" for v
  have "SqlInt (uint (word v)) = v" if "v \<in> set_counters r" for v
  proof -
    have "clean_val v" "v \<noteq> SqlReal" using that assms False unfolding clean_row_def overflowed_def by metis+
    then show ?thesis by (cases v) (simp_all add: word_def uint_word_of_int_eq take_bit_int_eq_self)
  qed
  then have "sql_of (map_counters word r) = r"
    by (simp add: sql_of_def counters.map_comp comp_def counters.map_ident_strong)
  then show ?thesis by metis
qed simp

lemma clean_file_updates:
  assumes "clean_file db" and "storable c"
  shows "clean_file (add_total k (sql_of c) db)" "clean_file (add_daily kd (sql_of c) db)"
    "clean_file (put_checkpoint k d (sql_of c) db)"
  using assms by (auto simp: clean_file_def clean_row_add clean_row_sql_of split: if_splits option.splits)

lemma Upserts_cases:
  "(\<exists>e. UpsertTotal io k c db = (Fail e, db)) \<or>
     storable c \<and> UpsertTotal io k c db = (Ok (), add_total k (sql_of c) db)"
  "(\<exists>e. UpsertDaily io k d c db = (Fail e, db)) \<or>
     storable c \<and> UpsertDaily io k d c db = (Ok (), add_daily (k, d) (sql_of c) db)"
  "(\<exists>e. UpsertCheckpoint io k d c db = (Fail e, db)) \<or>
     storable c \<and> UpsertCheckpoint io k d c db = (Ok (), put_checkpoint k d (sql_of c) db)"
  unfolding UpsertTotal_def UpsertDaily_def UpsertCheckpoint_def
  by (rule in_tx_cases; auto simp: wrap_fail_Ok_iff dest: exec_upserts_Ok; blast)+

lemma persistAll_cases:
  "(\<exists>e. persistAll io k d c raw db = (Fail e, db)) \<or>
     storable c \<and> storable raw \<and> persistAll io k d c raw db = (Ok (), persist k d c raw db)"
proof (cases "persistAll io k d c raw db")
  case (Pair r db')
  then show ?thesis by (cases r) (auto dest: persistAll_Ok persistAll_Fail)
qed

lemma clean_file_reopen: "clean_file db \<Longrightarrow> clean_file (snd (New io db))"
proof (cases rule: New_cases [of io db])
  case (opened db')
  assume "clean_file db"
  with opened New_views [of io db] New_schema_ok [OF opened(1)] initSchema_Ok [OF opened(2)] show ?thesis
    by (simp add: clean_file_def wf_db_def own_keys_def)
qed simp

lemma clean_file_prune: "clean_file db \<Longrightarrow> clean_file (snd (PruneDaily io d db))"
proof (cases rule: PruneDaily_cases [of io d db])
  case (pruned r)
  assume clean: "clean_file db"
  let ?kept = "filter (\<lambda>((k, x), row). \<not> x < d) (daily db)"
  have "own_keys (db\<lparr>daily := ?kept\<rparr>)" using clean by (simp add: clean_file_def own_keys_prune)
  with clean pruned PruneDaily_frame [of io d db] show ?thesis
    by (auto simp: clean_file_def wf_db_def daily_cells_filter unique_keys_filter split: if_splits)
qed simp

lemma clean_file_empty: "New io empty_file = (Ok (), db) \<Longrightarrow> clean_file db"
  using New_views [of io empty_file] initSchema_Ok [OF New_Ok, of io empty_file db]
  by (auto simp: clean_file_def wf_db_def own_keys_def New_schema_ok empty_file_def
      total_cells_def daily_cells_def cp_cells_def)

lemma repo_file_clean: "repo_file db \<Longrightarrow> clean_file db"
proof (induction rule: repo_file.induct)
  case (total db io k c)
  then show ?case using Upserts_cases(1) [of io k c db] by (auto intro: clean_file_updates)
next
  case (day db io k d c)
  then show ?case using Upserts_cases(2) [of io k d c db] by (auto intro: clean_file_updates)
next
  case (checkpoint db io k d c)
  then show ?case using Upserts_cases(3) [of io k d c db] by (auto intro: clean_file_updates)
next
  case (flushed db io k d c raw)
  then show ?case
    using persistAll_cases [of io k d c raw db] by (auto simp: persist_def clean_file_updates)
qed (auto intro: clean_file_empty clean_file_reopen clean_file_prune)

lemma clean_file_reads:
  assumes "clean_file db"
  shows "\<exists>cp. GetCheckpoint no_faults k db = Ok cp"
    and "(\<exists>t. GetTotal no_faults k db = Ok t) \<or> (\<exists>r. total_cells db k = Some r \<and> overflowed r)"
    and "(\<exists>t. GetDaily no_faults k d db = Ok t) \<or> (\<exists>r. daily_cells db (k, d) = Some r \<and> overflowed r)"
proof -
  have q: "no_faults Query = None" by (simp add: no_faults_def)
  from assms have s: "schema_ok db" by (simp add: clean_file_def wf_db_def)
  show "\<exists>cp. GetCheckpoint no_faults k db = Ok cp"
  proof (cases "cp_cells db k")
    case (Some v)
    moreover obtain d r where "v = (d, r)" by (cases v)
    moreover from calculation assms obtain c where "r = sql_of c" unfolding clean_file_def by blast
    ultimately show ?thesis using GetCheckpoint_view(2) [where io = no_faults, OF s q] by blast
  qed (use GetCheckpoint_view(1) [where io = no_faults, OF s q] in blast)
  show "(\<exists>t. GetTotal no_faults k db = Ok t) \<or> (\<exists>r. total_cells db k = Some r \<and> overflowed r)"
  proof (cases "total_cells db k")
    case (Some r)
    with assms clean_row_scan [of r] GetTotal_view(2) [where io = no_faults and k = k, OF s q] show ?thesis by (auto simp: clean_file_def)
  qed (use GetTotal_view(1) [where io = no_faults, OF s q] in blast)
  show "(\<exists>t. GetDaily no_faults k d db = Ok t) \<or> (\<exists>r. daily_cells db (k, d) = Some r \<and> overflowed r)"
  proof (cases "daily_cells db (k, d)")
    case (Some r)
    with assms clean_row_scan [of r] GetDaily_view(2) [where io = no_faults and k = k and d = d, OF s q] show ?thesis by (auto simp: clean_file_def)
  qed (use GetDaily_view(1) [where io = no_faults, OF s q] in blast)
qed

text \<open>C16. Whatever the program has written, and whatever failed on the way, its database file is well
  formed: the schema is there, no primary key occurs twice, every row belongs to a record key, and a
  checkpoint is always readable; a total or a day is unreadable only when a sum of that row has left the
  signed 64-bit range.\<close>

theorem repo_file_well_formed:
  assumes "repo_file db"
  shows "wf_db db \<and> own_keys db \<and> (\<exists>cp. GetCheckpoint no_faults k db = Ok cp) \<and>
    ((\<exists>t. GetTotal no_faults k db = Ok t) \<or> (\<exists>r. total_cells db k = Some r \<and> overflowed r)) \<and>
    ((\<exists>t. GetDaily no_faults k d db = Ok t) \<or> (\<exists>r. daily_cells db (k, d) = Some r \<and> overflowed r))"
  using repo_file_clean [OF assms] clean_file_reads [OF repo_file_clean [OF assms]]
  by (auto simp: clean_file_def)

theorem repo_file_well_formed_witness:
  "\<exists>cp. GetCheckpoint no_faults \<lparr>InterfaceName = [], Ifindex = 2, MAC = Mac 1 2 3 4 5 6\<rparr>
      (snd (UpsertTotal no_faults \<lparr>InterfaceName = [], Ifindex = 2, MAC = Mac 1 2 3 4 5 6\<rparr> (Counters 60 1 60 1 0 0)
        (snd (New no_faults empty_file)))) = Ok cp"
proof -
  have "New no_faults empty_file = (Ok (), snd (New no_faults empty_file))" by code_simp
  then have "repo_file (snd (UpsertTotal no_faults k c (snd (New no_faults empty_file))))" for k c
    by (intro repo_file.intros)
  then show ?thesis using repo_file_well_formed by blast
qed

section \<open>Overflow\<close>

text \<open>The files that the writes of the program, of whatever outcome, and further starts make out of a file.\<close>

inductive written_after :: "database \<Rightarrow> database \<Rightarrow> bool" for db0 where
  now: "written_after db0 db0"
| reopened: "written_after db0 db \<Longrightarrow> written_after db0 (snd (New io db))"
| total: "written_after db0 db \<Longrightarrow> written_after db0 (snd (UpsertTotal io k c db))"
| day: "written_after db0 db \<Longrightarrow> written_after db0 (snd (UpsertDaily io k d c db))"
| checkpoint: "written_after db0 db \<Longrightarrow> written_after db0 (snd (UpsertCheckpoint io k d c db))"
| persisted: "written_after db0 db \<Longrightarrow> written_after db0 (snd (persistAll io k d c raw db))"
| flushed: "written_after db0 db \<Longrightarrow> Flush ios now0 now1 f db = Some (r, f', db') \<Longrightarrow> written_after db0 db'"
| pruned: "written_after db0 db \<Longrightarrow> written_after db0 (snd (PruneDaily io d db))"

definition lost_total :: "RecordKey \<Rightarrow> database \<Rightarrow> bool" where
  "lost_total k db \<longleftrightarrow> (\<exists>r. total_cells db k = Some r \<and> overflowed r)"

lemma lost_total_frame: "total_cells db' k = total_cells db k \<Longrightarrow> lost_total k db' = lost_total k db"
  by (simp add: lost_total_def)

lemma lost_total_UpsertTotal: "lost_total k db \<Longrightarrow> lost_total k (snd (UpsertTotal io k' c db))"
  using UpsertTotal_keeps_overflow by (auto simp: lost_total_def)

lemma lost_total_UpsertCheckpoint: "lost_total k db \<Longrightarrow> lost_total k (snd (UpsertCheckpoint io k' d c db))"
  using Upserts_cases(3) [of io k' d c db] by (auto simp: lost_total_def)

lemma lost_total_persist: "lost_total k db \<Longrightarrow> lost_total k (persist k' d c raw db)"
  by (auto simp: lost_total_def persist_def overflowed_stays)

lemma lost_total_persistAll: "lost_total k db \<Longrightarrow> lost_total k (snd (persistAll io k' d c raw db))"
  using persistAll_cases [of io k' d c raw db] by (auto simp: lost_total_persist)

lemma lost_total_flush_entry: "flush_entry io d key c db = (r, db') \<Longrightarrow> lost_total k db \<Longrightarrow> lost_total k db'"
  using lost_total_UpsertCheckpoint [of k db io "record_key key" d c]
    lost_total_persistAll [of k db io "record_key key" d _ c]
  by (auto simp: flush_entry_def Let_def split: sum.splits prod.splits if_splits) (metis snd_conv)+

lemma lost_total_flush_loop:
  "flush_loop m io today n mi db = Some (r, db') \<Longrightarrow> lost_total k db \<Longrightarrow> lost_total k db'"
  by (induction rule: flush_loop_induct) (auto dest: lost_total_flush_entry)

lemma lost_total_Flush: "Flush io now0 now1 f db = Some (r, f', db') \<Longrightarrow> lost_total k db \<Longrightarrow> lost_total k db'"
  by (auto simp: Flush_def split: option.splits prod.splits sum.splits dest: lost_total_flush_loop)

lemma lost_total_written: "written_after db0 db \<Longrightarrow> lost_total k db0 \<Longrightarrow> lost_total k db"
proof (induction rule: written_after.induct)
  case (day db io k' d c)
  then show ?case using Upserts_cases(2) [of io k' d c db] by (auto simp: lost_total_def)
qed (simp_all add: lost_total_UpsertTotal lost_total_UpsertCheckpoint lost_total_persistAll lost_total_Flush
    lost_total_frame [OF New_views(1)] lost_total_frame [OF PruneDaily_frame(1)])

lemma scan_rows_Fail:
  assumes "r \<in> set rows" and "scan r = Fail e"
  shows "\<exists>e. scan_rows io sm im scan n rows = Fail e"
  using assms
proof (induction rows arbitrary: n)
  case (Cons x rows)
  consider "r = x" | e' where "scan_rows io sm im scan (Suc n) rows = Fail e'" using Cons by auto
  then show ?case
    by cases (cases "io (RowsNext n)"; cases "scan x"; use Cons.prems(2) in \<open>simp add: scan_rows.simps [of io sm im scan n]\<close>)+
qed simp

lemma overflowed_listing:
  assumes "total_cells db k = Some r" and "overflowed r"
  shows "\<exists>e. ListTotals io [] db = Fail e"
proof -
  define rows where "rows = sort_key fst (filter (\<lambda>(k, row). iface_matches [] k) (totals db))"
  obtain e where "scan_counters r = Fail e" using overflowed_unreadable [OF assms(2)] by blast
  then have scan: "scan_total (key_cols k, r) = Fail e" by (simp add: scan_total_def)
  have "(key_cols k, r) \<in> set (totals db)"
    using assms(1) unfolding total_cells_def by (rule map_of_SomeD)
  then have "(key_cols k, r) \<in> set rows"
    unfolding rows_def set_sort set_filter mem_Collect_eq prod.case iface_matches_def by (intro conjI) simp_all
  from scan_rows_Fail [where scan = scan_total, OF this scan]
  obtain e' where "scan_rows io ''scanning total record: %w'' ''iterating total rows: %w'' scan_total 0 rows = Fail e'"
    by blast
  then have "\<exists>e. bind_result res (\<lambda>_. scan_rows io ''scanning total record: %w'' ''iterating total rows: %w'' scan_total 0
      rows) = Fail e" for res :: "unit result"
    by (cases res) simp_all
  then show ?thesis unfolding ListTotals_def query_rows_def rows_def .
qed

lemma lost_total_unreadable:
  assumes "lost_total k db"
  shows "\<exists>e. GetTotal io k db = Fail e" and "\<exists>e. ListTotals io [] db = Fail e"
proof -
  obtain r where r: "total_cells db k = Some r" "overflowed r" using assms by (auto simp: lost_total_def)
  obtain e where "scan_counters r = Fail e" using overflowed_unreadable [OF r(2)] by blast
  with r(1) show "\<exists>e. GetTotal io k db = Fail e"
    by (cases "bind_result (guard_io (io Query)) (\<lambda>_. require_table ''mac_traffic_totals'' db)")
      (auto simp: GetTotal_def query_row_def total_cells_def scan_total_def bind_result_def wrap_fail_def split: sum.splits)
  show "\<exists>e. ListTotals io [] db = Fail e" using overflowed_listing [OF r] .
qed

text \<open>C38. A total whose sum leaves the signed 64-bit range is lost for good. The write that overflows, of the
  method \<open>UpsertTotal\<close> or of the flush loop's transaction, is reported as a success when the driver makes
  no error; and after it, whatever the program writes to the file, be it by any of the repository's
  writes, by further flushes, by pruning or by opening it again, with any outcome, reading the record
  fails, and so does listing the totals of all interfaces.\<close>

theorem total_overflow_is_permanent:
  assumes "schema_ok db" and "total_cells db k = Some (sql_of old)" and "storable delta" and "storable raw"
    and "\<not> fits (counters_uint old + counters_uint delta)"
  shows "(\<exists>db'. UpsertTotal no_faults k delta db = (Ok (), db')) \<and>
    (\<exists>db'. persistAll no_faults k d delta raw db = (Ok (), db')) \<and>
    (\<forall>io db' later. (UpsertTotal io k delta db = (Ok (), db') \<or> persistAll io k d delta raw db = (Ok (), db')) \<and>
       written_after db' later \<longrightarrow>
       (\<exists>e. GetTotal io' k later = Fail e) \<and> (\<exists>e. ListTotals io' [] later = Fail e))"
proof -
  have "overflowed (map2_counters sql_add (sql_of old) (sql_of delta))"
    using overflow_marks [of "sql_of old" "counters_uint old" delta] assms(5) by simp
  with assms(2) have lost: "lost_total k (add_total k (sql_of delta) db)" "lost_total k (persist k d delta raw db)"
    by (simp_all add: lost_total_def persist_def)
  have "lost_total k db'" if "UpsertTotal io k delta db = (Ok (), db') \<or> persistAll io k d delta raw db = (Ok (), db')" for io db'
    using that lost by (auto dest: UpsertTotal_Ok_view persistAll_Ok)
  then have "(\<exists>e. GetTotal io' k later = Fail e) \<and> (\<exists>e. ListTotals io' [] later = Fail e)"
    if "UpsertTotal io k delta db = (Ok (), db') \<or> persistAll io k d delta raw db = (Ok (), db')"
      and "written_after db' later" for io db' later
    using lost_total_unreadable [OF lost_total_written [OF that(2)]] that(1) by blast
  then show ?thesis
    using upsert_shapes(1) [OF assms(1,3)] persistAll_no_faults [OF assms(1,3,4)] by blast
qed

theorem total_overflow_is_permanent_witness:
  "\<exists>db'. persistAll no_faults \<lparr>InterfaceName = [], Ifindex = 2, MAC = Mac 1 2 3 4 5 6\<rparr> ''2024-01-01'' (Counters 1 1 1 1 0 0)
      (Counters 5 5 5 5 0 0)
      (add_total \<lparr>InterfaceName = [], Ifindex = 2, MAC = Mac 1 2 3 4 5 6\<rparr>
        (sql_of (Counters 0x7FFFFFFFFFFFFFFF 1 1 1 0 0)) (snd (New no_faults empty_file))) = (Ok (), db') \<and>
    (\<exists>e. ListTotals no_faults [] (snd (PruneDaily no_faults ''2024-01-02'' db')) = Fail e)"
proof -
  let ?k = "\<lparr>InterfaceName = [], Ifindex = 2, MAC = Mac 1 2 3 4 5 6\<rparr>"
  let ?db = "add_total ?k (sql_of (Counters 0x7FFFFFFFFFFFFFFF 1 1 1 0 0)) (snd (New no_faults empty_file))"
  have "schema_ok ?db" using representsD(1) [OF represents_new] by simp
  moreover have "total_cells ?db ?k = Some (sql_of (Counters 0x7FFFFFFFFFFFFFFF 1 1 1 0 0))"
    using representsD(4) [OF represents_new] by (simp add: empty_store_def)
  ultimately have all: "(\<exists>db'. persistAll no_faults ?k ''2024-01-01'' (Counters 1 1 1 1 0 0) (Counters 5 5 5 5 0 0) ?db = (Ok (), db')) \<and>
      (\<forall>io db' later. persistAll io ?k ''2024-01-01'' (Counters 1 1 1 1 0 0) (Counters 5 5 5 5 0 0) ?db = (Ok (), db') \<and>
        written_after db' later \<longrightarrow> (\<exists>e. ListTotals no_faults [] later = Fail e))"
    using total_overflow_is_permanent [of ?db ?k "Counters 0x7FFFFFFFFFFFFFFF 1 1 1 0 0" "Counters 1 1 1 1 0 0"
        "Counters 5 5 5 5 0 0" "''2024-01-01''" no_faults] by auto
  moreover have "written_after db' (snd (PruneDaily no_faults ''2024-01-02'' db'))" for db'
    by (intro written_after.pruned written_after.now)
  ultimately show ?thesis by blast
qed

end
