(* ===== verification/Reporting.thy ===== *)
theory Reporting
  imports Http_Api Accounting Repository
begin

text \<open>
  What the HTTP API shows of the flushed counters: the properties that join the kernel map, the flush,
  the database and the queries.
\<close>

section \<open>The rows of a ledger\<close>

text \<open>Every row a flush wrote has the key of an entry of the traffic map, and no key has two rows.\<close>

definition map_keys :: "pk set" where
  "map_keys = range (\<lambda>key. key_cols (record_key key))"

definition keyed :: "database \<Rightarrow> bool" where
  "keyed db \<longleftrightarrow> fst ` set (totals db) \<subseteq> map_keys \<and> fst ` fst ` set (daily db) \<subseteq> map_keys \<and>
     unique_keys (totals db) \<and> unique_keys (daily db)"

lemma map_keys_iface: "k \<in> map_keys \<Longrightarrow> fst k = []"
  by (auto simp: map_keys_def key_cols_def record_key_def)

lemma keyed_updates:
  assumes "keyed db"
  shows "keyed (add_total (record_key key) v db)" "keyed (add_daily (record_key key, d) v db)"
    "keyed (put_checkpoint (record_key key) d v db)"
  using assms
  by (auto simp: keyed_def add_total_def add_daily_def put_checkpoint_def fst_set_upsert_row map_keys_def
      intro: unique_keys_upsert_row)

lemma keyed_prune: "keyed db \<Longrightarrow> keyed (db\<lparr>daily := filter P (daily db)\<rparr>)"
proof -
  assume keyed: "keyed db"
  have "fst ` fst ` set (filter P (daily db)) \<subseteq> fst ` fst ` set (daily db)" by (intro image_mono) auto
  also have "\<dots> \<subseteq> map_keys" using keyed by (simp add: keyed_def)
  finally show ?thesis using keyed by (simp add: keyed_def unique_keys_filter)
qed

lemma keyed_ledger: "ledger db d a \<Longrightarrow> keyed db"
proof (induction rule: ledger.induct)
  case (created io db d)
  then have "totals db = [] \<and> daily db = []"
    using New_Ok initSchema_Ok by (metis empty_file_def database.select_convs(3,4))
  then show ?case by (simp add: keyed_def)
next
  case (flushed db d a io key c r db')
  show ?case
  proof (cases rule: flush_entry_cases [of io d key c db])
    case (ok db1)
    then obtain cp where "db1 = entry_effect cp d key c db" by (rule flush_entry_Ok)
    with ok flushed show ?thesis by (auto simp: entry_effect_def persist_def Let_def keyed_updates)
  qed (use flushed in simp)
next
  case (reopened db d a io r db')
  show ?case
  proof (cases rule: New_cases [of io db])
    case (opened db1)
    with initSchema_Ok [OF opened(2)] reopened show ?thesis by (simp add: keyed_def)
  qed (use reopened in simp)
next
  case (pruned db d a cutoff io r db')
  show ?case
  proof (cases rule: PruneDaily_cases [of io cutoff db])
    case (pruned r')
    with \<open>PruneDaily io cutoff db = (r, db')\<close> keyed_prune [OF \<open>keyed db\<close>] show ?thesis by auto
  qed (use pruned in simp)
qed

section \<open>The interface filter\<close>

lemma filtered_rows_empty:
  assumes "ledger db d a" and "ifaceFilter \<noteq> []"
  shows "filter (\<lambda>(k, row). iface_matches ifaceFilter k) (totals db) = []"
    and "filter (\<lambda>((k, d), row). iface_matches ifaceFilter k \<and> d \<ge> x \<and> d \<le> y) (daily db) = []"
proof -
  have "k \<in> map_keys \<Longrightarrow> \<not> iface_matches ifaceFilter k" for k
    using map_keys_iface [of k] assms(2) by (auto simp: iface_matches_def)
  with keyed_ledger [OF assms(1)]
  show "filter (\<lambda>(k, row). iface_matches ifaceFilter k) (totals db) = []"
    and "filter (\<lambda>((k, d), row). iface_matches ifaceFilter k \<and> d \<ge> x \<and> d \<le> y) (daily db) = []"
    by (fastforce simp: filter_empty_conv keyed_def)+
qed

lemma query_rows_Nil: "query_rows io m1 m2 m3 name scan db [] = Ok rs \<Longrightarrow> rs = []"
  by (auto simp: query_rows_def bind_result_Inr_iff scan_rows.simps split: option.splits)

lemma window_filtered_empty:
  assumes "ledger db d a" and "ifaceFilter \<noteq> []" and "rng [] = []"
    and "query_window rng io now window ifaceFilter macFilter limit offset db = Ok recs"
  shows "recs = []"
proof -
  have rows: "ListTotals io ifaceFilter db = Ok ts \<Longrightarrow> ts = []"
    "ListDaily io x y ifaceFilter db = Ok ds \<Longrightarrow> ds = []" for ts x y ds
    using filtered_rows_empty [OF assms(1,2)]
    by (auto simp: ListTotals_def ListDaily_def dest: query_rows_Nil)
  from assms(3,4) show ?thesis
    by (auto dest!: rows simp: query_window_def queryAll_def queryToday_def queryDays_def queryMonth_def queryDateRange_def
        bind_result_Inr_iff Let_def split: if_splits prod.splits)
qed

text \<open>C26. The interface filter of the API never matches anything the program counted: flushes store every
  row under the empty interface name, so on every database reached by flushing, pruning and reopening,
  a request with an interface filter is answered with no record, in every window.\<close>

theorem interface_filter_matches_nothing:
  assumes "ledger db d archived" and "query_Get q ''interface'' \<noteq> []" and "\<forall>xs. mset (rng xs) = mset xs"
    and "handleTraffic rng io now q db = Records window limit offset records"
  shows "records = []"
proof -
  from assms(4) obtain w m l off where
    "query_window rng io now w (query_Get q ''interface'') m l off db = Ok records"
    by (auto simp: handleTraffic_def Let_def split: if_splits sum.splits)
  moreover have "rng [] = []" using assms(3) by (metis mset_zero_iff mset.simps(1))
  ultimately show ?thesis using window_filtered_empty [OF assms(1,2)] by blast
qed

lemma sample_all_eth0:
  "handleTraffic id no_faults noon1 [(''window'', ''all''), (''interface'', ''eth0'')] sample_db =
     Records ''all'' 100 0 []"
  by code_simp

theorem interface_filter_matches_nothing_witness:
  "resp_records (handleTraffic id no_faults noon1 [(''window'', ''all''), (''interface'', ''eth0'')] sample_db) = [] \<and>
   length (resp_records (handleTraffic id no_faults noon1 [(''window'', ''all'')] sample_db)) = 1"
proof -
  have "length (resp_records (handleTraffic id no_faults noon1 [(''window'', ''all'')] sample_db)) = 1"
    by code_simp
  moreover have "query_Get [(''window'', ''all''), (''interface'', ''eth0'')] ''interface'' \<noteq> []"
    by (simp add: query_Get_def)
  from interface_filter_matches_nothing [OF sample_ledger this _ sample_all_eth0] sample_all_eth0
  have "resp_records (handleTraffic id no_faults noon1 [(''window'', ''all''), (''interface'', ''eth0'')] sample_db) = []"
    by simp
  ultimately show ?thesis by blast
qed

section \<open>Today's report\<close>

text \<open>Every row of the current day holds the raw counters of its key's checkpoint.\<close>

lemma ledger_day_row:
  assumes "ledger db d a" and "((p, d), r) \<in> set (daily db)"
  shows "\<exists>key raw. p = key_cols (record_key key) \<and> r = sql_of raw \<and>
    cp_cells db (record_key key) = Some (d, sql_of raw)"
proof -
  note keyed = keyed_ledger [OF assms(1)]
  have "p \<in> fst ` fst ` set (daily db)" using assms(2) by (force simp: image_iff)
  with keyed obtain key where p: "p = key_cols (record_key key)"
    unfolding keyed_def map_keys_def by blast
  let ?k = "record_key key"
  from keyed assms(2) p have row: "daily_cells db (?k, d) = Some r"
    by (simp add: daily_cells_def keyed_def unique_keys_map_of)
  have today: "today_row db d ?k"
    using ledger_invariant [OF assms(1)] by (simp add: ledger_inv_def key_inv_def)
  with row obtain d0 cells where cp: "cp_cells db ?k = Some (d0, cells)"
    by (cases "cp_cells db ?k") (auto simp: today_row_def)
  with today row have "\<not> d0 < d" and "d0 \<le> d" by (auto simp: today_row_def)
  then have "d0 = d" by simp
  with today cp row obtain raw where "cells = sql_of raw" "holds_int (Some r) (counters_uint raw)"
    by (auto simp: today_row_def)
  then show ?thesis using p cp \<open>d0 = d\<close> by (auto simp: holds_int_sql_of_iff)
qed

lemma today_listing:
  assumes "ledger db d a"
  obtains ds where "ListDaily no_faults d d [] db = Ok ds"
    and "distinct (map daily_key ds)"
    and "\<And>x. x \<in> set ds \<longleftrightarrow> (\<exists>key c. x = \<lparr>daily_key = record_key key, daily_DateUTC = d, daily_counters = c\<rparr> \<and>
      daily_cells db (record_key key, d) = Some (sql_of c))"
proof -
  note keyed = keyed_ledger [OF assms]
  have uniq: "unique_keys (daily db)" using keyed by (simp add: keyed_def)
  have rows: "\<exists>k c. p = key_cols k \<and> r = sql_of c" if "((p, x), r) \<in> set (daily db)" "d \<le> x" "x \<le> d" for p x r
    using ledger_day_row [OF assms, of p r] that by auto
  obtain ds where list: "ListDaily no_faults d d [] db = Ok ds"
    and "sorted (map (\<lambda>r. (key_cols (daily_key r), daily_DateUTC r)) ds)"
    and dist: "distinct (map (\<lambda>r. (key_cols (daily_key r), daily_DateUTC r)) ds)"
    and set: "\<And>x. x \<in> set ds \<longleftrightarrow> (\<exists>k e c. x = \<lparr>daily_key = k, daily_DateUTC = e, daily_counters = c\<rparr> \<and>
      ((key_cols k, e), sql_of c) \<in> set (daily db) \<and> (([] :: string) = [] \<or> InterfaceName k = []) \<and> d \<le> e \<and> e \<le> d)"
  proof (rule ListDaily_rows [OF ledger_schema [OF assms] uniq])
    show "\<exists>k c. p = key_cols k \<and> r = sql_of c" if "((p, x), r) \<in> set (daily db)" "d \<le> x" "x \<le> d" for p x r
      using that by (rule rows)
  qed (erule that; assumption)
  have cells: "((key_cols k, d), sql_of c) \<in> set (daily db) \<longleftrightarrow> daily_cells db (k, d) = Some (sql_of c)" for k c
    using uniq by (simp add: daily_cells_def unique_keys_map_of)
  have own: "\<exists>key. k = record_key key" if "((key_cols k, d), sql_of c) \<in> set (daily db)" for k c
    using ledger_day_row [OF assms that] key_cols_inject by blast
  have mem: "x \<in> set ds \<longleftrightarrow> (\<exists>key c. x = \<lparr>daily_key = record_key key, daily_DateUTC = d, daily_counters = c\<rparr> \<and>
      daily_cells db (record_key key, d) = Some (sql_of c))" (is "_ \<longleftrightarrow> ?rec x") for x
  proof
    assume "x \<in> set ds"
    then obtain k c where x: "x = \<lparr>daily_key = k, daily_DateUTC = d, daily_counters = c\<rparr>"
      and row: "((key_cols k, d), sql_of c) \<in> set (daily db)" unfolding set by (elim exE conjE) simp
    with own [OF row] cells [of k c] show "?rec x" by blast
  next
    assume "?rec x"
    then show "x \<in> set ds" unfolding set using cells by blast
  qed
  have "daily_DateUTC r = d" if "r \<in> set ds" for r using that mem by force
  then have "map (\<lambda>r. (key_cols (daily_key r), daily_DateUTC r)) ds = map (\<lambda>k. (key_cols k, d)) (map daily_key ds)"
    by simp
  with dist have "distinct (map (\<lambda>k. (key_cols k, d)) (map daily_key ds))" by (simp only:)
  then have "distinct (map daily_key ds)" unfolding distinct_map [of "\<lambda>k. (key_cols k, d)"] by (rule conjunct1)
  with list mem show thesis by (intro that)
qed

lemma matching_unique:
  assumes "distinct (map daily_key ds)" and "x \<in> set ds"
  shows "matching [] (daily_key x) ds = [x]"
  using assms
  by (induction ds) (auto simp: matching_def mac_mismatch_def filter_empty_conv image_iff)

lemma matching_no_filter: "matching [] k ds \<noteq> [] \<longleftrightarrow> k \<in> daily_key ` set ds"
  by (auto simp: matching_def mac_mismatch_def filter_empty_conv image_iff)

lemma today_report:
  assumes "ledger db d a" and "CurrentDateUTC now = d" and "\<forall>xs. mset (rng xs) = mset xs"
    and "int (length (daily db)) \<le> limit"
  shows "\<exists>recs. queryToday rng no_faults now [] [] limit 0 db = Ok recs \<and>
    (\<forall>r. r \<in> set recs \<longleftrightarrow> (\<exists>key c. r = make_record (record_key key) c ''today'' \<and>
      daily_cells db (record_key key, d) = Some (sql_of c)))"
proof -
  obtain ds where list: "ListDaily no_faults d d [] db = Ok ds" and dist: "distinct (map daily_key ds)"
    and mem: "\<And>x. x \<in> set ds \<longleftrightarrow> (\<exists>key c. x = \<lparr>daily_key = record_key key, daily_DateUTC = d, daily_counters = c\<rparr> \<and>
      daily_cells db (record_key key, d) = Some (sql_of c))" 
    by (rule today_listing [OF assms(1)]) (erule that; assumption)
  have "length ds \<le> length (daily db)" using list by (rule ListDaily_length)
  then have limit: "int (length ds) \<le> limit" using assms(4) by linarith
  note whole = queryDateRange_whole [where rng = rng and w = "''today''" and macFilter = "[]", OF _ list limit]
  have "(\<exists>k. matching [] k ds \<noteq> [] \<and> r = make_record k (\<Sum>d \<leftarrow> matching [] k ds. daily_counters d) ''today'') \<longleftrightarrow>
      (\<exists>x \<in> set ds. r = make_record (daily_key x) (daily_counters x) ''today'')" for r
    unfolding matching_no_filter using matching_unique [OF dist] by (auto simp: image_iff)
  moreover have "(\<exists>x \<in> set ds. r = make_record (daily_key x) (daily_counters x) ''today'') \<longleftrightarrow>
      (\<exists>key c. r = make_record (record_key key) c ''today'' \<and> daily_cells db (record_key key, d) = Some (sql_of c))" for r
  proof -
    have "(\<exists>x \<in> set ds. P x) \<longleftrightarrow> (\<exists>key c. P \<lparr>daily_key = record_key key, daily_DateUTC = d, daily_counters = c\<rparr> \<and>
        daily_cells db (record_key key, d) = Some (sql_of c))" for P unfolding Bex_def mem by blast
    then show ?thesis by simp
  qed
  ultimately show ?thesis
    using whole assms(2,3) by (simp add: queryToday_def Let_def)
qed

text \<open>C1. From the wire to the report. Take the kernel map after any frames since it was loaded and a flush
  without error of any handle. For every address whose entry the flush read, the value read last being
  the map's and not all zero, today's window lists the sum (modulo $2^{64}$) of all frames the eBPF
  programs counted for the address; and every record it lists is the day's row of some map key. The
  other hypotheses are that the database was only written by flushes, prunings and openings, that the
  clock has not gone back, that the request falls on the day of the flush, that reading the database
  does not fail, and that the page has room for all daily rows. An address whose entry a failed read
  kept from the flush is not promised anything.\<close>

theorem today_report_counts_frames_since_load:
  assumes "ledger db d archived" and "d \<le> CurrentDateUTC now0" and "CurrentDateUTC now = CurrentDateUTC now0"
    and "Flush io now0 now1 (with_map f m) db = Some (Ok (), f', db')" and "reads m Iterate es mi"
    and "map_of (rev es) key = Some c" and "map_of (fold (handle capacity) frames []) key = Some c" and "c \<noteq> 0"
    and "\<forall>xs. mset (rng xs) = mset xs" and "int (length (daily db')) \<le> limit"
  shows "\<exists>recs. queryToday rng no_faults now [] [] limit 0 db' = Ok recs \<and>
    make_record (record_key key) (\<Sum>p \<leftarrow> frames. packet_counts key p) ''today'' \<in> set recs \<and>
    (\<forall>r \<in> set recs. \<exists>k row. r = make_record (record_key k) row ''today'' \<and>
      daily_cells db' (record_key k, CurrentDateUTC now0) = Some (sql_of row))"
proof -
  note row = flushed_day_row [OF assms(1,2,4,5,6,8)]
  have "c = (\<Sum>p \<leftarrow> frames. packet_counts key p)"
    using handle_run_exact [of "[]" key 0 capacity frames c] assms(7) by simp
  with row(2) today_report [OF row(1) assms(3,9,10)] show ?thesis by blast
qed

definition sample_frames :: "packet list" where
  "sample_frames =
     [(Ingress, \<lparr>skb_data = [0xaa, 0xbb, 0xcc, 0xdd, 0xee, 0xff, 1, 2, 3, 4, 5, 6, 8, 0], skb_ifindex = 2, skb_len = 60\<rparr>),
      (Egress, \<lparr>skb_data = [1, 2, 3, 4, 5, 6, 0xaa, 0xbb, 0xcc, 0xdd, 0xee, 0xff, 8, 0], skb_ifindex = 2, skb_len = 1500\<rparr>)]"

lemma sample_frames_counted:
  "map_of (fold (handle 4) sample_frames []) sample_key = Some (Counters 1560 2 60 1 1500 1)"
  "(\<Sum>p \<leftarrow> sample_frames. packet_counts sample_key p) = Counters 1560 2 60 1 1500 1"
  by code_simp+

lemma sample_frames_flushed:
  "map_option (\<lambda>(r, f, db). (r, length (daily db)))
     (Flush (\<lambda>_. no_faults) noon1 noon1
       (with_map sample_loop (snapshot (fold (handle 4) sample_frames []))) fresh_db) = Some (Ok (), 1)"
  by code_simp

theorem today_report_counts_frames_since_load_witness:
  "\<exists>f' db' recs. Flush (\<lambda>_. no_faults) noon1 noon1
       (with_map sample_loop (snapshot (fold (handle 4) sample_frames []))) fresh_db = Some (Ok (), f', db') \<and>
     queryToday id no_faults noon1 [] [] 100 0 db' = Ok recs \<and>
     make_record (record_key sample_key) (Counters 1560 2 60 1 1500 1) ''today'' \<in> set recs"
proof -
  obtain f' db' where run: "Flush (\<lambda>_. no_faults) noon1 noon1
      (with_map sample_loop (snapshot (fold (handle 4) sample_frames []))) fresh_db = Some (Ok (), f', db')"
    and rows: "length (daily db') = 1"
    using sample_frames_flushed by auto
  from rows have room: "int (length (daily db')) \<le> 100" by simp
  let ?m = "fold (handle 4) sample_frames []"
  obtain mi where reads: "reads (snapshot ?m) Iterate (AList.clearjunk ?m) mi" using rest.reads_entries by blast
  have "map_of (rev (AList.clearjunk ?m)) sample_key = Some (Counters 1560 2 60 1 1500 1)"
    using sample_frames_counted(1) by simp
  from today_report_counts_frames_since_load [OF fresh_ledger order_refl refl run reads this sample_frames_counted(1) _ _ room, of id]
    run show ?thesis by (auto simp: sample_frames_counted(2))
qed

end
