(* ===== verification/Housekeeping.thy ===== *)
theory Housekeeping
  imports Flush
begin

text \<open>
  The retention task of \<open>internal/runtime/housekeeping.go\<close>: a run deletes the daily rows older than
  400 days. \<open>now0\<close> is the clock when the cutoff is computed, \<open>now1\<close> when the run is recorded. The
  theory shows which rows survive, and that a run may happen at any point of a flush without changing
  what the flush does. The log line after a successful run is left out.
\<close>

section \<open>The model\<close>

record HousekeepingLoop =
  hk_repo :: bool
  hk_Interval :: int64
  hk_lastRun :: time
  hk_lastPruneDate :: string
  hk_pruneErr :: "err option"

definition NewHousekeepingLoop :: "bool \<Rightarrow> int \<Rightarrow> HousekeepingLoop" where
  "NewHousekeepingLoop repo intervalSec =
     \<lparr>hk_repo = repo, hk_Interval = word_of_int intervalSec * 1000000000,
      hk_lastRun = 0, hk_lastPruneDate = [], hk_pruneErr = None\<rparr>"

definition runOnce ::
  "db_io \<Rightarrow> time \<Rightarrow> time \<Rightarrow> HousekeepingLoop \<Rightarrow> database \<Rightarrow> unit result \<times> HousekeepingLoop \<times> database" where
  "runOnce io now0 now1 h db =
     (if \<not> hk_repo h then (Ok (), h, db)
      else
        (let cutoffDateUTC = PruneCutoffDate now0;
             h1 = h\<lparr>hk_lastRun := now1\<rparr>
         in case PruneDaily io cutoffDateUTC db of
              (Inl e, db') \<Rightarrow>
                (Fail (Errorf ''pruning daily records (cutoff %s): %w'' [AStr cutoffDateUTC, AErr e]),
                 h1\<lparr>hk_pruneErr := Some e\<rparr>, db')
            | (Inr _, db') \<Rightarrow>
                (Ok (), h1\<lparr>hk_lastPruneDate := cutoffDateUTC, hk_pruneErr := None\<rparr>, db')))"

text \<open>What \<open>runLoop\<close> does when the ticker fires: the error it stores is the wrapped one.\<close>

definition housekeeping_tick ::
  "db_io \<Rightarrow> time \<Rightarrow> time \<Rightarrow> HousekeepingLoop \<Rightarrow> database \<Rightarrow> HousekeepingLoop \<times> database" where
  "housekeeping_tick io now0 now1 h db =
     (case runOnce io now0 now1 h db of
        (Inl e, h', db') \<Rightarrow> (h'\<lparr>hk_pruneErr := Some e\<rparr>, db')
      | (Inr _, h', db') \<Rightarrow> (h', db'))"

text \<open>\<open>Start\<close> up to the point where it spawns the loop.\<close>

definition housekeeping_Start ::
  "db_io \<Rightarrow> time \<Rightarrow> time \<Rightarrow> HousekeepingLoop \<Rightarrow> database \<Rightarrow> unit result \<times> HousekeepingLoop \<times> database" where
  "housekeeping_Start io now0 now1 h db =
     (case runOnce io now0 now1 h db of
        (Inl e, h', db') \<Rightarrow> (Fail (wrap_err ''initial housekeeping run: %w'' e), h', db')
      | (Inr _, h', db') \<Rightarrow> (Ok (), h', db'))"

definition LastRun :: "HousekeepingLoop \<Rightarrow> time" where
  "LastRun h = hk_lastRun h"

definition LastPruneCutoff :: "HousekeepingLoop \<Rightarrow> string" where
  "LastPruneCutoff h = hk_lastPruneDate h"

definition PruneError :: "HousekeepingLoop \<Rightarrow> err option" where
  "PruneError h = hk_pruneErr h"

section \<open>Retention\<close>

text \<open>Deleting the rows before a date, as a function on the file.\<close>

definition prune_before :: "string \<Rightarrow> database \<Rightarrow> database" where
  "prune_before cutoff db = db\<lparr>daily := filter (\<lambda>((k, d), row). \<not> d < cutoff) (daily db)\<rparr>"

lemma prune_before_views [simp]:
  "total_cells (prune_before cutoff db) k = total_cells db k"
  "cp_cells (prune_before cutoff db) k = cp_cells db k"
  "schema_ok (prune_before cutoff db) = schema_ok db"
  "require_table name (prune_before cutoff db) = require_table name db"
  by (simp_all add: prune_before_def total_cells_def cp_cells_def schema_ok_def require_table_def)

lemma prune_before_daily [simp]:
  "daily_cells (prune_before cutoff db) (k, d) = (if d < cutoff then None else daily_cells db (k, d))"
  using map_of_filter_key [of "\<lambda>(k, d). \<not> d < cutoff" "daily db" "(key_cols k, d)"]
  by (simp add: prune_before_def daily_cells_def case_prod_unfold)

lemma PruneDaily_prune_before:
  "PruneDaily io cutoff db = (Ok n, db') \<Longrightarrow>
   db' = prune_before cutoff db \<and> n = int (length (daily db)) - int (length (daily db'))"
  by (auto simp: PruneDaily_def prune_before_def Let_def split: sum.splits option.splits)

lemma runOnce_Ok:
  assumes "runOnce io now0 now1 h db = (Ok (), h', db')" and "hk_repo h"
  shows "db' = prune_before (PruneCutoffDate now0) db \<and>
    h' = h\<lparr>hk_lastRun := now1, hk_lastPruneDate := PruneCutoffDate now0, hk_pruneErr := None\<rparr>"
  using assms
  by (auto simp: runOnce_def Let_def dest!: PruneDaily_prune_before split: sum.splits prod.splits)

lemma cutoff_day:
  assumes "sane_clock now" and "date_day d"
  shows "format_day d < PruneCutoffDate now \<longleftrightarrow> d < now div day_ns - 400"
  using assms by (simp add: PruneCutoffDate_def FormatDateUTC_def AddDate_days_day format_day_less_iff
      sane_clock_def)

text \<open>C18. A successful housekeeping run keeps exactly the daily rows of the last 400 days and today: a row
  of day \<open>d\<close> is untouched if \<open>d\<close> is at most 400 days before the run's day and gone otherwise. The
  all-time rows and the checkpoints stay, the cutoff used is recorded and an earlier error cleared.\<close>

theorem runOnce_retention_exact:
  assumes "runOnce io now0 now1 h db = (Ok (), h', db')" and "hk_repo h"
    and "sane_clock now0" and "date_day d"
  shows "daily_cells db' (k, format_day d) =
      (if now0 div day_ns - d \<le> 400 then daily_cells db (k, format_day d) else None) \<and>
    total_cells db' k = total_cells db k \<and> cp_cells db' k = cp_cells db k \<and>
    LastPruneCutoff h' = format_day (now0 div day_ns - 400) \<and> PruneError h' = None \<and> LastRun h' = now1"
  using runOnce_Ok [OF assms(1,2)] cutoff_day [OF assms(3,4)]
  by (simp add: LastPruneCutoff_def PruneError_def LastRun_def PruneCutoffDate_def
      FormatDateUTC_def AddDate_days_day)

definition retention_db :: database where
  "retention_db = (snd (New no_faults empty_file))\<lparr>daily :=
     [(((''eth0'', 2, [1, 2, 3, 4, 5, 6]), ''2022-11-27''), sql_of (Counters 1 1 1 1 0 0)),
      (((''eth0'', 2, [1, 2, 3, 4, 5, 6]), ''2022-11-26''), sql_of (Counters 2 2 2 2 0 0))]\<rparr>"

definition retention_noon :: time where
  "retention_noon = 738885 * day_ns + 43200 * 1000000000"

lemma retention_dates:
  "sane_clock retention_noon" "date_day 738485" "date_day 738484"
  "format_day 738485 = ''2022-11-27''" "format_day 738484 = ''2022-11-26''"
  "retention_noon div day_ns = 738885"
  by code_simp+

lemma retention_run:
  "runOnce no_faults retention_noon 1 (NewHousekeepingLoop True 3600) retention_db =
     (Ok (), (NewHousekeepingLoop True 3600)\<lparr>hk_lastRun := 1, hk_lastPruneDate := ''2022-11-27''\<rparr>,
      prune_before ''2022-11-27'' retention_db)"
  by code_simp

theorem runOnce_retention_exact_witness:
  "let k = \<lparr>InterfaceName = ''eth0'', Ifindex = 2, MAC = Mac 1 2 3 4 5 6\<rparr>;
       db' = prune_before ''2022-11-27'' retention_db
   in daily_cells db' (k, ''2022-11-27'') = daily_cells retention_db (k, ''2022-11-27'') \<and>
      daily_cells db' (k, ''2022-11-26'') = None \<and>
      daily_cells retention_db (k, ''2022-11-26'') \<noteq> None"
proof -
  let ?k = "\<lparr>InterfaceName = ''eth0'', Ifindex = 2, MAC = Mac 1 2 3 4 5 6\<rparr>"
  have repo: "hk_repo (NewHousekeepingLoop True 3600)" by (simp add: NewHousekeepingLoop_def)
  have "daily_cells retention_db (?k, ''2022-11-26'') \<noteq> None" by code_simp
  with runOnce_retention_exact [OF retention_run repo retention_dates(1,2), of ?k]
    runOnce_retention_exact [OF retention_run repo retention_dates(1,3), of ?k]
  show ?thesis by (simp add: retention_dates)
qed

section \<open>A run in the middle of a flush\<close>

text \<open>
  The two loops share the database and nothing else. Deleting old rows commutes with everything a
  flush does to the file, as long as the cutoff is not after the flush's day.
\<close>

named_theorems prune_commute \<open>statements that commute with the deletion of old rows\<close>

lemma filter_upsert_row:
  "P k \<Longrightarrow> filter (\<lambda>(k, v). P k) (upsert_row k new upd t) =
     upsert_row k new upd (filter (\<lambda>(k, v). P k) t)"
  by (induction t) auto

lemma prune_daily_row:
  "\<not> d < cutoff \<Longrightarrow>
   filter (\<lambda>((k, d), row). \<not> d < cutoff) (upsert_row (kc, d) new upd t) =
     upsert_row (kc, d) new upd (filter (\<lambda>((k, d), row). \<not> d < cutoff) t)"
  using filter_upsert_row [of "\<lambda>(k, d). \<not> d < cutoff" "(kc, d)" new upd t]
  by (simp add: case_prod_unfold)

lemma exec_prune_commute [prune_commute]:
  "exec_upsert_checkpoint io n k d c (prune_before cutoff db) =
     map_sum id (prune_before cutoff) (exec_upsert_checkpoint io n k d c db)"
  "exec_upsert_total io n k c (prune_before cutoff db) =
     map_sum id (prune_before cutoff) (exec_upsert_total io n k c db)"
  "\<not> d < cutoff \<Longrightarrow> exec_upsert_daily io n k d c (prune_before cutoff db) =
     map_sum id (prune_before cutoff) (exec_upsert_daily io n k d c db)"
  by (simp_all add: exec_upsert_checkpoint_def exec_upsert_total_def exec_upsert_daily_def run_stmt_def
      bind_result_def prune_daily_row prune_before_def require_table_def split: sum.split)

lemma bind_prune_commute [prune_commute]:
  assumes "\<And>db. g (prune_before cutoff db) = map_sum id (prune_before cutoff) (g db)"
  shows "bind_result (map_sum id (prune_before cutoff) r) g =
    map_sum id (prune_before cutoff) (bind_result r g)"
  using assms by (cases r) simp_all

lemma wrap_prune_commute [prune_commute]:
  "wrap_fail msg (map_sum id f r) = map_sum id f (wrap_fail msg r)"
  by (cases r) (simp_all add: wrap_fail_def)

lemma in_tx_prune_commute:
  assumes "\<And>db. body (prune_before cutoff db) = map_sum id (prune_before cutoff) (body db)"
  shows "in_tx io wb wc body (prune_before cutoff db) =
    apsnd (prune_before cutoff) (in_tx io wb wc body db)"
  by (cases "body db") (simp_all add: in_tx_def assms split: option.split)

lemma UpsertCheckpoint_prune [prune_commute]:
  "UpsertCheckpoint io k d c (prune_before cutoff db) =
     apsnd (prune_before cutoff) (UpsertCheckpoint io k d c db)"
  unfolding UpsertCheckpoint_def by (rule in_tx_prune_commute) (simp add: prune_commute)

lemma persistAll_prune [prune_commute]:
  "\<not> d < cutoff \<Longrightarrow> persistAll io k d delta raw (prune_before cutoff db) =
     apsnd (prune_before cutoff) (persistAll io k d delta raw db)"
  unfolding persistAll_def by (rule in_tx_prune_commute) (simp add: prune_commute)

lemma GetCheckpoint_prune [prune_commute]:
  "GetCheckpoint io k (prune_before cutoff db) = GetCheckpoint io k db"
  by (simp add: GetCheckpoint_def query_row_def prune_before_def require_table_def)

lemma flush_entry_prune:
  "\<not> today < cutoff \<Longrightarrow> flush_entry io today key c (prune_before cutoff db) =
     apsnd (prune_before cutoff) (flush_entry io today key c db)"
  by (simp add: flush_entry_def Let_def prune_commute split: sum.split prod.split)

lemma flush_loop_prune:
  assumes "flush_loop m io today n mi db = Some (r, db')" and "\<not> today < cutoff"
  shows "flush_loop m io today n mi (prune_before cutoff db) = Some (r, prune_before cutoff db')"
  using assms(1)
  by (induction rule: flush_loop_induct; subst flush_loop.simps)
    (simp_all add: flush_entry_prune [OF assms(2)])

text \<open>C17. Housekeeping and flushing do not interfere: deleting old rows before a flush, with a cutoff not
  after the flush's day, gives the same result, the same loop state and the same file as deleting them
  after it. An entry is one transaction, so every interleaving of a run with a flush is one of a run
  before the remaining entries.\<close>

theorem Flush_prune_commute:
  assumes "Flush io now0 now1 f db = Some (r, f', db')" and "\<not> CurrentDateUTC now0 < cutoff"
  shows "Flush io now0 now1 f (prune_before cutoff db) = Some (r, f', prune_before cutoff db')"
proof (cases "Option.bind (fl_trafficMap f) TrafficMap_Map")
  case None
  with assms(1) show ?thesis by (simp add: Flush_def)
next
  case (Some m)
  with assms(1) obtain r1 where loop: "flush_loop m io (CurrentDateUTC now0) 0 Iterate db = Some (r1, db')"
    by (auto simp: Flush_def split: option.splits prod.splits sum.splits)
  from flush_loop_prune [OF loop assms(2)] loop Some assms(1) show ?thesis
    by (cases r1) (auto simp: Flush_def)
qed

theorem Flush_prune_commute_witness:
  "\<exists>r f' db'. Flush (\<lambda>_. no_faults) retention_noon 7
       (NewFlushLoop True (Some \<lparr>tm_m = Some (snapshot
          [(\<lparr>key_Ifindex = 2, key_Mac = Mac 1 2 3 4 5 6\<rparr>, Counters 9 1 9 1 0 0)])\<rparr>) 10)
       (prune_before ''2022-11-27'' retention_db) = Some (r, f', prune_before ''2022-11-27'' db')"
proof -
  let ?f = "NewFlushLoop True (Some \<lparr>tm_m = Some (snapshot
    [(\<lparr>key_Ifindex = 2, key_Mac = Mac 1 2 3 4 5 6\<rparr>, Counters 9 1 9 1 0 0)])\<rparr>) 10"
  have "Flush (\<lambda>_. no_faults) retention_noon 7 ?f retention_db \<noteq> None" by code_simp
  then obtain r f' db' where run: "Flush (\<lambda>_. no_faults) retention_noon 7 ?f retention_db = Some (r, f', db')"
    by auto
  have "\<not> CurrentDateUTC retention_noon < ''2022-11-27''" by code_simp
  from Flush_prune_commute [OF run this] show ?thesis by blast
qed

end
