(* ===== verification/Loop_Control.thy ===== *)
theory Loop_Control
  imports Prelude
begin

text \<open>
  The start and stop protocol that \<open>internal/runtime/flush.go\<close> and \<open>housekeeping.go\<close> share: a
  goroutine that selects on a stop channel, its context and a ticker, and a \<open>Stop\<close> that closes the
  stop channel once, waits for the goroutine and, in the flush loop only, flushes one last time. The
  state holds every goroutine that \<open>Start\<close> spawned and every call of \<open>Stop\<close>, so any interleaving
  of them is a sequence of events. What the goroutine does on a tick is the theory of its component;
  here it only takes time. A panic ends the process.
\<close>

section \<open>State and events\<close>

datatype loop_pc = Spawned | Selecting | Working | Exited

text \<open>A waiting \<open>Stop\<close> knows whether its context can be cancelled (\<open>context.Background\<close> cannot).\<close>

datatype stop_pc = Waiting bool | FinalWork | Returned

record loop_state =
  loops :: "loop_pc list"
  stops :: "stop_pc list"
  stopped :: bool
  stopCh_closed :: bool
  stoppedCh_closed :: bool
  loop_ctx_done :: bool
  panicked :: bool

definition loop_init :: loop_state where
  "loop_init = \<lparr>loops = [], stops = [], stopped = False, stopCh_closed = False,
     stoppedCh_closed = False, loop_ctx_done = False, panicked = False\<rparr>"

text \<open>\<open>time.NewTicker\<close> panics for a duration that is not positive.\<close>

definition NewTicker_ok :: "int64 \<Rightarrow> bool" where
  "NewTicker_ok d \<longleftrightarrow> 0 < sint d"

definition runLoop_enter :: "int64 \<Rightarrow> nat \<Rightarrow> loop_state \<Rightarrow> loop_state" where
  "runLoop_enter interval i s =
     (if NewTicker_ok interval then s\<lparr>loops := (loops s)[i := Selecting]\<rparr> else s\<lparr>panicked := True\<rparr>)"

text \<open>Returning from \<open>runLoop\<close> runs the deferred \<open>close(stoppedCh)\<close>.\<close>

definition runLoop_return :: "nat \<Rightarrow> loop_state \<Rightarrow> loop_state" where
  "runLoop_return i s =
     (if stoppedCh_closed s then s\<lparr>panicked := True\<rparr>
      else s\<lparr>loops := (loops s)[i := Exited], stoppedCh_closed := True\<rparr>)"

text \<open>The part of \<open>Stop\<close> under the mutex.\<close>

definition Stop_enter :: "bool \<Rightarrow> loop_state \<Rightarrow> loop_state" where
  "Stop_enter cancellable s =
     (if stopped s then s\<lparr>stops := stops s @ [Returned]\<rparr>
      else if stopCh_closed s then s\<lparr>panicked := True\<rparr>
      else s\<lparr>stopped := True, stopCh_closed := True, stops := stops s @ [Waiting cancellable]\<rparr>)"

datatype loop_event =
    Spawn
  | Enter nat
  | Tick nat
  | TickDone nat
  | SeesStop nat
  | SeesCtx nat
  | CancelLoopCtx
  | CallStop bool
  | StopSeesStopped nat
  | StopSeesCtx nat
  | FinalDone nat

definition at_loop :: "loop_state \<Rightarrow> nat \<Rightarrow> loop_pc \<Rightarrow> bool" where
  "at_loop s i pc \<longleftrightarrow> i < length (loops s) \<and> loops s ! i = pc"

definition at_stop :: "loop_state \<Rightarrow> nat \<Rightarrow> stop_pc \<Rightarrow> bool" where
  "at_stop s j pc \<longleftrightarrow> j < length (stops s) \<and> stops s ! j = pc"

text \<open>
  One event; \<open>None\<close> when it cannot happen. \<open>final\<close> says whether \<open>Stop\<close> ends with a flush.
\<close>

fun loop_step :: "bool \<Rightarrow> int64 \<Rightarrow> loop_event \<Rightarrow> loop_state \<Rightarrow> loop_state option" where
  "loop_step final interval Spawn s = Some (s\<lparr>loops := loops s @ [Spawned]\<rparr>)"
| "loop_step final interval (Enter i) s =
     (if at_loop s i Spawned then Some (runLoop_enter interval i s) else None)"
| "loop_step final interval (Tick i) s =
     (if at_loop s i Selecting then Some (s\<lparr>loops := (loops s)[i := Working]\<rparr>) else None)"
| "loop_step final interval (TickDone i) s =
     (if at_loop s i Working then Some (s\<lparr>loops := (loops s)[i := Selecting]\<rparr>) else None)"
| "loop_step final interval (SeesStop i) s =
     (if at_loop s i Selecting \<and> stopCh_closed s then Some (runLoop_return i s) else None)"
| "loop_step final interval (SeesCtx i) s =
     (if at_loop s i Selecting \<and> loop_ctx_done s then Some (runLoop_return i s) else None)"
| "loop_step final interval CancelLoopCtx s = Some (s\<lparr>loop_ctx_done := True\<rparr>)"
| "loop_step final interval (CallStop cancellable) s = Some (Stop_enter cancellable s)"
| "loop_step final interval (StopSeesStopped j) s =
     (if (at_stop s j (Waiting True) \<or> at_stop s j (Waiting False)) \<and> stoppedCh_closed s
      then Some (s\<lparr>stops := (stops s)[j := if final then FinalWork else Returned]\<rparr>) else None)"
| "loop_step final interval (StopSeesCtx j) s =
     (if at_stop s j (Waiting True) then Some (s\<lparr>stops := (stops s)[j := Returned]\<rparr>) else None)"
| "loop_step final interval (FinalDone j) s =
     (if at_stop s j FinalWork then Some (s\<lparr>stops := (stops s)[j := Returned]\<rparr>) else None)"

fun loop_run :: "bool \<Rightarrow> int64 \<Rightarrow> loop_event list \<Rightarrow> loop_state \<Rightarrow> loop_state option" where
  "loop_run final interval [] s = Some s"
| "loop_run final interval (ev # evs) s =
     (if panicked s then None
      else Option.bind (loop_step final interval ev s) (loop_run final interval evs))"

inductive loop_reach :: "bool \<Rightarrow> int64 \<Rightarrow> loop_state \<Rightarrow> bool" for final interval where
  init: "loop_reach final interval loop_init"
| step: "loop_reach final interval s \<Longrightarrow> \<not> panicked s \<Longrightarrow>
    loop_step final interval ev s = Some s' \<Longrightarrow> loop_reach final interval s'"

lemma loop_run_reach:
  "loop_reach final interval s \<Longrightarrow> loop_run final interval evs s = Some s' \<Longrightarrow> loop_reach final interval s'"
  by (induction evs arbitrary: s) (auto split: if_splits Option.bind_splits intro: loop_reach.step)

section \<open>The invariant of a loop that is started at most once\<close>

definition active :: "stop_pc \<Rightarrow> bool" where
  "active p \<longleftrightarrow> p \<noteq> Returned"

text \<open>
  The stop channel is closed exactly when a \<open>Stop\<close> went ahead, which only one call does; the
  stopped channel is closed exactly when the goroutine has returned; the final flush comes after.
\<close>

definition loop_inv :: "loop_state \<Rightarrow> bool" where
  "loop_inv s \<longleftrightarrow> \<not> panicked s \<and> stopCh_closed s = stopped s \<and>
     stoppedCh_closed s = (loops s = [Exited]) \<and>
     length (filter active (stops s)) \<le> (if stopped s then 1 else 0) \<and>
     (FinalWork \<in> set (stops s) \<longrightarrow> stoppedCh_closed s)"

lemma length_filter_update:
  "P (xs ! j) \<Longrightarrow> length (filter P (xs[j := x])) \<le> length (filter P xs)"
proof (induction xs arbitrary: j)
  case (Cons a xs)
  then show ?case by (cases j) auto
qed simp

lemma active_update:
  assumes "at_stop s j p" and "active p" and "length (filter active (stops s)) \<le> n"
  shows "length (filter active ((stops s)[j := q])) \<le> n"
  using assms length_filter_update [of active "stops s" j q] by (simp add: at_stop_def)

lemma set_update_cases: "x \<in> set (xs[j := y]) \<Longrightarrow> x = y \<or> x \<in> set xs"
  using set_update_subset_insert by fastforce

lemma loop_inv_stop_update:
  assumes "loop_inv s" and "at_stop s j p" and "active p" and "q = FinalWork \<Longrightarrow> stoppedCh_closed s"
  shows "loop_inv (s\<lparr>stops := (stops s)[j := q]\<rparr>)"
proof -
  have "length (filter active ((stops s)[j := q])) \<le> (if stopped s then 1 else 0)"
    by (rule active_update [OF assms(2,3)]) (use assms(1) in \<open>simp add: loop_inv_def\<close>)
  with assms(1,4) show ?thesis by (auto simp: loop_inv_def dest: set_update_cases)
qed

lemma loops_monotone:
  "loop_step final interval ev s = Some s' \<Longrightarrow> length (loops s) \<le> length (loops s')"
  by (cases ev) (auto simp: runLoop_enter_def runLoop_return_def Stop_enter_def split: if_splits)

lemma at_loop_single: "length (loops s) \<le> 1 \<Longrightarrow> at_loop s i pc \<longleftrightarrow> i = 0 \<and> loops s = [pc]"
  by (cases "loops s") (auto simp: at_loop_def)

lemma loop_inv_step:
  assumes inv: "loop_inv s" and ok: "NewTicker_ok interval"
    and ev: "loop_step final interval ev s = Some s'" and one: "length (loops s') \<le> 1"
  shows "loop_inv s'"
proof -
  have one': "length (loops s) \<le> 1" using loops_monotone [OF ev] one by simp
  show ?thesis
  proof (cases ev)
    case Spawn
    with ev one inv show ?thesis by (auto simp: loop_inv_def)
  next
    case (StopSeesStopped j)
    with ev inv show ?thesis
      by (auto simp: active_def intro: loop_inv_stop_update split: if_splits)
  next
    case (StopSeesCtx j)
    with ev inv show ?thesis by (auto simp: active_def intro: loop_inv_stop_update split: if_splits)
  next
    case (FinalDone j)
    with ev inv show ?thesis by (auto simp: active_def intro: loop_inv_stop_update split: if_splits)
  qed (use ev inv ok in \<open>auto simp: loop_inv_def at_loop_single [OF one'] runLoop_enter_def
      runLoop_return_def Stop_enter_def active_def split: if_splits\<close>)
qed

lemma loop_inv_reach:
  assumes "loop_reach final interval s" and "NewTicker_ok interval" and "length (loops s) \<le> 1"
  shows "loop_inv s"
  using assms
proof (induction rule: loop_reach.induct)
  case init
  show ?case by (simp add: loop_inv_def loop_init_def)
next
  case (step s ev s')
  from loops_monotone [OF step.hyps(3)] step.prems(2) have "length (loops s) \<le> 1" by simp
  with step.IH step.prems have "loop_inv s" by simp
  from loop_inv_step [OF this step.prems(1) step.hyps(3) step.prems(2)] show ?case .
qed

section \<open>Properties\<close>

text \<open>C10. A loop with a positive interval that is started at most once never panics, whatever the order of
  ticks, cancellations and any number of concurrent calls of \<open>Stop\<close>: no channel is closed twice. At
  most one call of \<open>Stop\<close> waits or works at any time, and while it does its final flush the loop's
  goroutine has returned, so flushes never overlap.\<close>

theorem loop_protocol_safe:
  assumes "loop_reach final interval s" and "NewTicker_ok interval" and "length (loops s) \<le> 1"
  shows "\<not> panicked s \<and> length (filter active (stops s)) \<le> 1 \<and>
    (FinalWork \<in> set (stops s) \<longrightarrow> loops s = [Exited])"
  using loop_inv_reach [OF assms] by (auto simp: loop_inv_def split: if_splits)

theorem loop_protocol_safe_witness:
  "let s = the (loop_run True 10000000000
       [Spawn, Enter 0, Tick 0, CallStop False, CallStop True, TickDone 0, SeesStop 0, StopSeesStopped 0] loop_init)
   in loops s = [Exited] \<and> stops s = [FinalWork, Returned] \<and> \<not> panicked s \<and>
      length (filter active (stops s)) \<le> 1"
proof -
  let ?evs = "[Spawn, Enter 0, Tick 0, CallStop False, CallStop True, TickDone 0, SeesStop 0, StopSeesStopped 0]"
  let ?s = "the (loop_run True 10000000000 ?evs loop_init)"
  have run: "loop_run True 10000000000 ?evs loop_init = Some ?s" by code_simp
  have shape: "loops ?s = [Exited]" "stops ?s = [FinalWork, Returned]" by code_simp+
  have "NewTicker_ok 10000000000" by (simp add: NewTicker_ok_def)
  from loop_protocol_safe [OF loop_run_reach [OF loop_reach.init run] this] shape
  show ?thesis unfolding Let_def by simp
qed

text \<open>A waiting \<open>Stop\<close> can always finish: from every reachable state of a loop with a positive interval
  that was started once there is a continuation, without any further tick or call, after which that call has returned.\<close>

lemma Stop_can_return:
  assumes "loop_reach final interval s" and "NewTicker_ok interval" and "length (loops s) = 1"
    and "at_stop s j (Waiting c)"
  shows "\<exists>evs s'. length evs \<le> 4 \<and> loop_run final interval evs s = Some s' \<and> at_stop s' j Returned"
proof -
  from assms(3) obtain pc where pc: "loops s = [pc]" by (auto simp: length_Suc_conv)
  have inv: "loop_inv s" using assms by (intro loop_inv_reach) simp_all
  have "active (Waiting c)" by (simp add: active_def)
  with assms(4) have "filter active (stops s) \<noteq> []"
    by (metis at_stop_def filter_empty_conv nth_mem)
  with inv have st: "stopCh_closed s" "\<not> panicked s" "stopped s"
    by (auto simp: loop_inv_def split: if_splits)
  have w: "at_stop s j (Waiting True) \<or> at_stop s j (Waiting False)"
    using assms(4) by (cases c) auto
  let ?tail = "if final then [StopSeesStopped j, FinalDone j] else [StopSeesStopped j]"
  let ?evs = "(case pc of Spawned \<Rightarrow> [Enter 0, SeesStop 0] | Selecting \<Rightarrow> [SeesStop 0]
    | Working \<Rightarrow> [TickDone 0, SeesStop 0] | Exited \<Rightarrow> []) @ ?tail"
  have "\<exists>s'. loop_run final interval ?evs s = Some s' \<and> at_stop s' j Returned"
    using inv st pc w assms(2,4)
    by (cases pc; cases final)
      (auto simp: loop_inv_def at_loop_def at_stop_def runLoop_enter_def runLoop_return_def)
  moreover have "length ?evs \<le> 4" by (cases pc) simp_all
  ultimately show ?thesis by blast
qed

text \<open>
  A call of \<open>Stop\<close> with a context that cannot be cancelled, as \<open>main\<close> makes them: \<open>stop_waits\<close> is where the
  call stands after the events \<open>evs\<close> that follow it, \<open>None\<close> as long as it waits, when the events cannot
  happen, or when the process has panicked.
\<close>

definition stop_waits :: "bool \<Rightarrow> int64 \<Rightarrow> loop_event list \<Rightarrow> loop_state \<Rightarrow> stop_pc option" where
  "stop_waits final interval evs s =
     (case loop_run final interval (CallStop False # evs) s of
        None \<Rightarrow> None
      | Some s' \<Rightarrow>
          if panicked s' \<or> length (stops s') \<le> length (stops s) then None
          else (case stops s' ! length (stops s) of Waiting c \<Rightarrow> None | pc \<Rightarrow> Some pc))"

text \<open>The wait ends: three events of the goroutine and the call are enough.\<close>

lemma stop_waits_ends:
  assumes "loop_reach final interval s" and "NewTicker_ok interval" and "length (loops s) = 1" and "\<not> stopped s"
  shows "\<exists>evs. length evs \<le> 3 \<and> stop_waits final interval evs s = Some (if final then FinalWork else Returned)"
proof -
  from assms(3) obtain pc where pc: "loops s = [pc]" by (auto simp: length_Suc_conv)
  have inv: "loop_inv s" using assms by (intro loop_inv_reach) simp_all
  let ?evs = "(case pc of Spawned \<Rightarrow> [Enter 0, SeesStop 0] | Selecting \<Rightarrow> [SeesStop 0]
    | Working \<Rightarrow> [TickDone 0, SeesStop 0] | Exited \<Rightarrow> []) @ [StopSeesStopped (length (stops s))]"
  have "stop_waits final interval ?evs s = Some (if final then FinalWork else Returned)"
    using inv pc assms(2,4)
    by (cases pc) (auto simp: stop_waits_def loop_inv_def at_loop_def at_stop_def runLoop_enter_def
        runLoop_return_def Stop_enter_def nth_append)
  moreover have "length ?evs \<le> 3" by (cases pc) simp_all
  ultimately show ?thesis by blast
qed

definition hung :: "loop_state \<Rightarrow> bool" where
  "hung s \<longleftrightarrow> loops s = [] \<and> \<not> stoppedCh_closed s \<and> at_stop s 0 (Waiting False)"

lemma at_stop_update_other:
  "at_stop s j p \<Longrightarrow> at_stop s 0 q \<Longrightarrow> p \<noteq> q \<Longrightarrow> at_stop (s\<lparr>stops := (stops s)[j := r]\<rparr>) 0 q"
  by (cases j) (auto simp: at_stop_def)

lemma hung_step: "loop_step final interval ev s = Some s' \<Longrightarrow> ev \<noteq> Spawn \<Longrightarrow> hung s \<Longrightarrow> hung s'"
  by (cases ev) (auto simp: hung_def at_loop_def Stop_enter_def split: if_splits
      intro: at_stop_update_other, auto simp: at_stop_def nth_append)

lemma hung_run: "loop_run final interval evs s = Some s' \<Longrightarrow> Spawn \<notin> set evs \<Longrightarrow> hung s \<Longrightarrow> hung s'"
  by (induction evs arbitrary: s) (auto split: if_splits Option.bind_splits dest: hung_step)

text \<open>A \<open>Stop\<close> with a context that cannot be cancelled, called on a loop that was never started, waits
  for ever: no sequence of events without a start lets it return.\<close>

lemma Stop_without_Start_hangs:
  assumes "loop_run final interval (CallStop False # evs) loop_init = Some s" and "Spawn \<notin> set evs"
  shows "at_stop s 0 (Waiting False)"
proof -
  have "hung (Stop_enter False loop_init)"
    by (simp add: hung_def loop_init_def Stop_enter_def at_stop_def)
  with assms hung_run [of final interval evs "Stop_enter False loop_init" s] show ?thesis
    by (simp add: hung_def split: if_splits)
qed

text \<open>Starting a loop twice makes the second goroutine panic when the loop is stopped: both close the
  stopped channel.\<close>

lemma two_starts_panic:
  assumes "NewTicker_ok interval"
  shows "\<exists>s. loop_run final interval [Spawn, Spawn, Enter 0, Enter 1, CallStop False, SeesStop 0, SeesStop 1] loop_init
    = Some s \<and> panicked s"
  using assms
  by (simp add: loop_init_def at_loop_def runLoop_enter_def runLoop_return_def Stop_enter_def)

end
