(* ===== verification/Main_Program.thy ===== *)
theory Main_Program
  imports Config_Json Reporting Housekeeping Loop_Control
begin

text \<open>
  The program itself, \<open>cmd/traffic-count/main.go\<close>: the sequence of steps from the command line to the
  two running loops, and the sequence that ends them. Everything outside the process is the argument
  \<open>env\<close>: the file system, the operating system's checks, the kernel and the eBPF library, the
  database driver and the clock. The database files are a map from paths, a missing file being empty.
\<close>

section \<open>The model\<close>

record 'w environment =
  env_ReadFile :: "string \<Rightarrow> string result"
  env_os :: os_env
  env_tcx :: "'w tcx"
  env_lib :: ebpf_lib
  env_stat :: "nat \<Rightarrow> file_stat"
  env_open :: db_io
  env_restore :: db_io
  env_prune :: db_io
  env_prune_now :: time
  env_prune_done :: time

type_synonym files = "string \<Rightarrow> database"

record running =
  run_cfg :: Config
  run_svc :: Service
  run_flush :: FlushLoop
  run_housekeeping :: HousekeepingLoop

text \<open>
  Opening the database and starting the two loops. The flush loop does not touch the database before
  its first tick.
\<close>

definition start_loops ::
  "'w environment \<Rightarrow> Config \<Rightarrow> Service \<Rightarrow> files \<Rightarrow> running result \<times> files" where
  "start_loops env cfg svc files =
     (let path = DatabasePath cfg in
      case New (env_open env) (files path) of
        (Inl e, db) \<Rightarrow> (Fail (Errorf ''failed to open database: %v'' [AErr e]), files(path := db))
      | (Inr _, db) \<Rightarrow>
          (let flush = NewFlushLoop True (Service_GetTrafficMap svc) (FlushInterval cfg) in
           case flush_Start (env_restore env) flush db of
             Inl e \<Rightarrow> (Fail (Errorf ''failed to start flush loop: %v'' [AErr e]), files(path := db))
           | Inr _ \<Rightarrow>
               (case housekeeping_Start (env_prune env) (env_prune_now env) (env_prune_done env)
                       (NewHousekeepingLoop True (HousekeepingInterval cfg)) db of
                  (Inl e, _, db') \<Rightarrow>
                    (Fail (Errorf ''failed to start housekeeping loop: %v'' [AErr e]), files(path := db'))
                | (Inr _, housekeeping, db') \<Rightarrow>
                    (Ok \<lparr>run_cfg = cfg, run_svc = svc, run_flush = flush, run_housekeeping = housekeeping\<rparr>,
                     files(path := db')))))"

text \<open>
  \<open>main\<close> up to the point where it waits for a signal. A failure is what it prints before \<open>os.Exit(1)\<close>.
  The result of the validator is never nil; an error that leaves the mode other than failed is only
  printed.
\<close>

definition main_start ::
  "'w environment \<Rightarrow> string \<Rightarrow> string \<Rightarrow> 'w \<Rightarrow> files \<Rightarrow> running result \<times> 'w \<times> files" where
  "main_start env configPath ebpfObjectPath w files =
     (case Load (env_ReadFile env) configPath of
        Inl e \<Rightarrow> (Fail (Errorf ''failed to load config from %q: %v'' [AStr configPath, AErr e]), w, files)
      | Inr cfg \<Rightarrow>
          (case Validate cfg of
             Inl e \<Rightarrow> (Fail e, w, files)
           | Inr _ \<Rightarrow>
               (case Validator_Validate (NewValidator (env_os env) cfg) of (result, err) \<Rightarrow>
                  if err \<noteq> None \<and> res_Mode result = ModeFailed then (Fail (the err), w, files)
                  else (case Service_Start (env_tcx env) (env_lib env) (env_stat env)
                              (NewService cfg ebpfObjectPath) w of
                    (Inl e, _, w') \<Rightarrow> (Fail (Errorf ''failed to start service: %v'' [AErr e]), w', files)
                  | (Inr _, svc, w') \<Rightarrow>
                      (let svc = UpdateFromResult result svc in
                       if \<not> IsHealthy svc \<and> \<not> IsDegraded svc
                       then (Fail (Errorf ''service in failed state'' []), w', files)
                       else (case start_loops env cfg svc files of (r, files') \<Rightarrow> (r, w', files')))))))"

text \<open>
  The end of \<open>main\<close> after a signal. \<open>hs\<close> and \<open>fs\<close> are where the goroutines of the housekeeping and the flush
  loop stand when their \<open>Stop\<close> is called, \<open>evh\<close> and \<open>evf\<close> what they and the call do then: each \<open>Stop\<close> waits
  for its goroutine to return. The housekeeping loop's \<open>Stop\<close> does nothing more, the flush loop's, unless
  it was stopped before, flushes once; \<open>files\<close> are the files at that moment. Then the service is stopped.
  Errors are printed and the sequence goes on. \<open>None\<close> is a shutdown that has not come to its end: a
  \<open>Stop\<close> that still waits, a panic, or a final flush that never ends.
\<close>

definition main_shutdown ::
  "'w environment \<Rightarrow> loop_event list \<Rightarrow> loop_state \<Rightarrow> loop_event list \<Rightarrow> loop_state
     \<Rightarrow> (nat \<Rightarrow> db_io) \<Rightarrow> time \<Rightarrow> time \<Rightarrow> string list \<Rightarrow> running \<Rightarrow> 'w \<Rightarrow> files
     \<Rightarrow> (unit result \<times> AttachResult list \<times> running \<times> 'w \<times> files) option" where
  "main_shutdown env evh hs evf fs io now0 now1 order r w files =
     (let path = DatabasePath (run_cfg r) in
      if stop_waits False (hk_Interval (run_housekeeping r)) evh hs \<noteq> Some Returned then None
      else if stop_waits True (fl_Interval (run_flush r)) evf fs \<noteq> Some (if stopped fs then Returned else FinalWork)
      then None
      else case (if stopped fs then Some (Ok (), run_flush r, files path)
                 else Flush io now0 now1 (run_flush r) (files path)) of
        None \<Rightarrow> None
      | Some (res, flush, db) \<Rightarrow>
          (case Service_Stop (env_tcx env) order (run_svc r) w of (results, svc, w') \<Rightarrow>
             Some (wrap_fail ''final flush: %w'' res, results, r\<lparr>run_flush := flush, run_svc := svc\<rparr>,
                   w', files(path := db))))"

section \<open>Steps of the start\<close>

lemma start_loops_Ok:
  assumes "start_loops env cfg svc files = (Ok r, files')"
  obtains db hk db' where
    "New (env_open env) (files (DatabasePath cfg)) = (Ok (), db)"
    and "flush_Start (env_restore env) (run_flush r) db = Ok ()"
    and "housekeeping_Start (env_prune env) (env_prune_now env) (env_prune_done env)
          (NewHousekeepingLoop True (HousekeepingInterval cfg)) db = (Ok (), hk, db')"
    and "r = \<lparr>run_cfg = cfg, run_svc = svc,
          run_flush = NewFlushLoop True (Service_GetTrafficMap svc) (FlushInterval cfg), run_housekeeping = hk\<rparr>"
    and "files' = files(DatabasePath cfg := db')"
  using assms by (auto simp: start_loops_def Let_def split: prod.splits sum.splits)

lemma main_start_Ok:
  assumes "main_start env configPath ebpfObjectPath w files = (Ok r, w', files')"
  obtains cfg result err svc where
    "Load (env_ReadFile env) configPath = Ok cfg" and "Validate cfg = Ok ()"
    and "Validator_Validate (NewValidator (env_os env) cfg) = (result, err)"
    and "Service_Start (env_tcx env) (env_lib env) (env_stat env) (NewService cfg ebpfObjectPath) w = (Ok (), svc, w')"
    and "IsHealthy (UpdateFromResult result svc) \<or> IsDegraded (UpdateFromResult result svc)"
    and "start_loops env cfg (UpdateFromResult result svc) files = (Ok r, files')"
  using assms by (auto simp: main_start_def Let_def split: prod.splits sum.splits if_splits)

lemma main_start_files:
  assumes "main_start env configPath ebpfObjectPath w files = (r, w', files')"
  shows "files' = files \<or> (\<exists>cfg svc r'. start_loops env cfg svc files = (r', files') \<and>
    Load (env_ReadFile env) configPath = Ok cfg)"
  using assms by (auto simp: main_start_def Let_def split: prod.splits sum.splits if_splits)

lemma housekeeping_Start_effect:
  assumes "housekeeping_Start io now0 now1 h db = (r, h', db')"
  shows "db' = db \<or> db' = snd (PruneDaily io (PruneCutoffDate now0) db)" and "hk_Interval h' = hk_Interval h"
  using assms by (auto simp: housekeeping_Start_def runOnce_def Let_def split: if_splits prod.splits sum.splits)

lemma start_loops_effect:
  assumes "start_loops env cfg svc files = (r, files')"
  shows "\<exists>db. files' = files(DatabasePath cfg := db) \<and>
    (db = snd (New (env_open env) (files (DatabasePath cfg))) \<or>
     db = snd (PruneDaily (env_prune env) (PruneCutoffDate (env_prune_now env))
       (snd (New (env_open env) (files (DatabasePath cfg))))))"
  using assms
  by (auto simp: start_loops_def Let_def split: prod.splits sum.splits dest!: housekeeping_Start_effect(1))

section \<open>A host for the witnesses\<close>

text \<open>Root, one usable interface, every call succeeding; the configuration file sets two fields.\<close>

definition sample_env :: "string \<Rightarrow> host environment" where
  "sample_env text =
     \<lparr>env_ReadFile = (\<lambda>_. Ok text),
      env_os = \<lparr>os_Getuid = 0, os_Stat = (\<lambda>_. Ok ()), os_IsNotExist = (\<lambda>_. False), run_tc = (\<lambda>_. Inr [])\<rparr>,
      env_tcx = host_tcx, env_lib = sample_lib, env_stat = (\<lambda>_. StatSize 52),
      env_open = no_faults, env_restore = no_faults, env_prune = no_faults,
      env_prune_now = noon1, env_prune_done = noon1\<rparr>"

definition sample_text :: string where
  \<open>sample_text = ''{"Interfaces": ["eth0"], "HousekeepingInterval": 0}''\<close>

definition sample_cfg :: Config where
  "sample_cfg = New_config\<lparr>Interfaces := [''eth0''], HousekeepingInterval := 0\<rparr>"

lemma sample_load: "Load (env_ReadFile (sample_env sample_text)) ''config.json'' = Ok sample_cfg"
proof -
  have scan: "json_scan sample_text = Ok (JObject [(''Interfaces'', JArray [JString ''eth0'']), (''HousekeepingInterval'', JNumber ''0'')])"
    by code_simp
  have "Atoi ''0'' = Ok 0" by code_simp
  with scan show ?thesis
    by (simp add: Load_def LoadFromFile_def Parse_def Unmarshal_def sample_env_def match_field_names set_field_def sample_cfg_def New_config_def)
qed

lemma sample_valid: "Validate sample_cfg = Ok ()"
  by code_simp

lemma sample_check:
  "Validator_Validate (NewValidator (env_os (sample_env text)) sample_cfg) =
     (\<lparr>res_Mode = ModeHealthy, res_TotalInterfaces = 1, res_AttachedInterfaces = [''eth0''],
       res_FailedInterfaces = [], res_AttachErrors = []\<rparr>, None)"
  by (simp add: Validator_Validate_def NewValidator_def opt_check_def realCheckCapabilities_def
      realValidateInterface_def realCheckQdisc_def sample_env_def sample_cfg_def New_config_def)

lemma fresh_flush_Start: "flush_Start no_faults (NewFlushLoop True tm n) fresh_db = Ok ()"
proof -
  have "ListCheckpoints no_faults [] fresh_db = Ok []" by code_simp
  then show ?thesis by (simp add: flush_Start_def restoreCheckpoints_def NewFlushLoop_def)
qed

lemma fresh_start_loops:
  assumes "env_open env = no_faults" and "env_restore env = no_faults" and "env_prune env = no_faults"
  shows "\<exists>r files'. start_loops env cfg svc (\<lambda>_. empty_file) = (Ok r, files') \<and> run_cfg r = cfg"
proof -
  have "schema_ok fresh_db" using New_schema_ok [OF New_fresh] .
  then have "\<exists>db' hk. housekeeping_Start no_faults now now' (NewHousekeepingLoop True n) fresh_db = (Ok (), hk, db')" for now now' n
    by (simp add: housekeeping_Start_def runOnce_def NewHousekeepingLoop_def PruneDaily_def Let_def
        no_faults_def require_table_ok)
  then obtain db' hk where "housekeeping_Start no_faults (env_prune_now env) (env_prune_done env)
      (NewHousekeepingLoop True (HousekeepingInterval cfg)) fresh_db = (Ok (), hk, db')" by blast
  then show ?thesis using New_fresh fresh_flush_Start by (simp add: start_loops_def assms Let_def)
qed

lemma sample_running:
  obtains r w' files' where
    "main_start (sample_env sample_text) ''config.json'' [] sample_host (\<lambda>_. empty_file) = (Ok r, w', files')"
    and "run_cfg r = sample_cfg"
proof -
  obtain r svc w' where start: "Service_Start host_tcx sample_lib (\<lambda>_. StatSize 52) (NewService sample_cfg []) sample_host = (r, svc, w')"
    by (cases "Service_Start host_tcx sample_lib (\<lambda>_. StatSize 52) (NewService sample_cfg []) sample_host")
  obtain coll tm where "LoadTrafficObjects sample_lib (\<lambda>_. StatSize 52) (NewLoader []) = Ok (coll, tm)"
    using sample_lib_loads by blast
  from Start_attaches_nothing [OF sample_lib_tagged _ this start] have "r = Ok ()" by (simp add: sample_lib_def)
  let ?result = "\<lparr>res_Mode = ModeHealthy, res_TotalInterfaces = 1, res_AttachedInterfaces = [''eth0''],
       res_FailedInterfaces = [], res_AttachErrors = []\<rparr>"
  obtain run files' where loops: "start_loops (sample_env sample_text) sample_cfg (UpdateFromResult ?result svc)
      (\<lambda>_. empty_file) = (Ok run, files')" and cfg: "run_cfg run = sample_cfg"
    using fresh_start_loops [of "sample_env sample_text" sample_cfg "UpdateFromResult ?result svc"]
    by (auto simp: sample_env_def)
  have env: "env_tcx (sample_env sample_text) = host_tcx" "env_lib (sample_env sample_text) = sample_lib"
    "env_stat (sample_env sample_text) = (\<lambda>_. StatSize 52)" by (simp_all add: sample_env_def)
  have "IsHealthy (UpdateFromResult ?result svc)" by (simp add: IsHealthy_def UpdateFromResult_def)
  then have "main_start (sample_env sample_text) ''config.json'' [] sample_host (\<lambda>_. empty_file) = (Ok run, w', files')"
    unfolding main_start_def sample_load env sum.case sample_valid sample_check prod.case start \<open>r = Ok ()\<close> Let_def loops
    by simp
  with cfg that show thesis by blast
qed

section \<open>Properties\<close>

text \<open>C13. Starting the program keeps the recorded history: however far the start gets and whatever fails, in
  every database file all totals and checkpoints are as before, and so is every day that is not older
  than the retention cutoff.\<close>

theorem startup_keeps_history:
  assumes "main_start env configPath ebpfObjectPath w files = (r, w', files')"
  shows "total_cells (files' p) k = total_cells (files p) k \<and> cp_cells (files' p) k = cp_cells (files p) k \<and>
    (PruneCutoffDate (env_prune_now env) \<le> d \<longrightarrow> daily_cells (files' p) (k, d) = daily_cells (files p) (k, d))"
proof -
  from main_start_files [OF assms] consider "files' = files"
    | cfg svc r' where "start_loops env cfg svc files = (r', files')" by blast
  then show ?thesis
  proof cases
    case (2 cfg svc r')
    let ?opened = "snd (New (env_open env) (files (DatabasePath cfg)))"
    have "daily_cells (snd (PruneDaily io cutoff db)) (k, d) = daily_cells db (k, d)" if "cutoff \<le> d" for io cutoff db
      using PruneDaily_daily [of io cutoff db k d] that by auto
    with start_loops_effect [OF 2] show ?thesis by (cases "p = DatabasePath cfg") auto
  qed simp
qed

lemma validator_cfg [simp]: "v_cfg (NewValidator env cfg) = cfg"
  by (simp add: NewValidator_def)

lemma capability_check: "opt_check (v_checkCapability (NewValidator env cfg)) () = realCheckCapabilities env ()"
  by (simp add: NewValidator_def opt_check_def)

lemma validator_needs_root:
  assumes "Validator_Validate (NewValidator env cfg) = (result, err)" and "Interfaces cfg \<noteq> []"
    and "res_Mode result \<noteq> ModeFailed"
  shows "os_Getuid env = 0" and "opt_check (v_checkCapability (NewValidator env cfg)) () = Ok ()"
  using assms
  by (auto simp: Validator_Validate_def capability_check realCheckCapabilities_def Let_def split: if_splits)

text \<open>C4. The program runs only when it is ready to: once the start has succeeded, the configuration is the
  loaded one and valid, the process is root, the mode is healthy when every configured interface passed
  its checks and degraded, which the configuration then allows, when only some did; the status lists as
  attached exactly the interfaces that passed, at least one, as failed exactly the others, and as their
  total the number configured; and the database has its tables.\<close>

theorem running_means_ready:
  assumes "main_start env configPath ebpfObjectPath w files = (Ok r, w', files')"
  shows "let cfg = run_cfg r; v = NewValidator (env_os env) cfg; st = GetStatus (run_svc r) in
    Load (env_ReadFile env) configPath = Ok cfg \<and> Validate cfg = Ok () \<and> os_Getuid (env_os env) = 0 \<and>
    st_AttachedInterfaces st = filter (usable v) (Interfaces cfg) \<and> st_AttachedInterfaces st \<noteq> [] \<and>
    st_FailedInterfaces st = filter (\<lambda>i. \<not> usable v i) (Interfaces cfg) \<and>
    st_TotalInterfaces st = length (Interfaces cfg) \<and>
    (st_Mode st = ModeHealthy \<and> list_all (usable v) (Interfaces cfg) \<or>
     st_Mode st = ModeDegraded \<and> \<not> list_all (usable v) (Interfaces cfg) \<and> AllowPartial cfg) \<and>
    schema_ok (files' (DatabasePath cfg))"
proof -
  obtain cfg result err svc where load: "Load (env_ReadFile env) configPath = Ok cfg" "Validate cfg = Ok ()"
    and check: "Validator_Validate (NewValidator (env_os env) cfg) = (result, err)"
    and mode: "IsHealthy (UpdateFromResult result svc) \<or> IsDegraded (UpdateFromResult result svc)"
    and loops: "start_loops env cfg (UpdateFromResult result svc) files = (Ok r, files')"
    using main_start_Ok [OF assms] by metis
  have some: "Interfaces cfg \<noteq> []" using load(2) by (auto simp: Validate_def)
  have result: "res_Mode result = ModeHealthy \<or> res_Mode result = ModeDegraded"
    using mode by (simp add: IsHealthy_def IsDegraded_def UpdateFromResult_def)
  then have root: "os_Getuid (env_os env) = 0"
    "opt_check (v_checkCapability (NewValidator (env_os env) cfg)) () = Ok ()"
    using validator_needs_root [OF check some] by auto
  note outcome = Validate_outcome [OF _ root(2) check, unfolded validator_cfg, OF some]
  have "filter (usable (NewValidator (env_os env) cfg)) (Interfaces cfg) \<noteq> []"
    using outcome result some by (auto simp: filter_empty_conv list_all_iff list_ex_iff)
  moreover have "res_TotalInterfaces result = length (Interfaces cfg)"
    using check by (auto simp: Validator_Validate_def validate_loop_eq Let_def split: if_splits prod.splits sum.splits)
  moreover from loops obtain db hk db' where r: "run_cfg r = cfg" "run_svc r = UpdateFromResult result svc"
    and db: "New (env_open env) (files (DatabasePath cfg)) = (Ok (), db)" "files' (DatabasePath cfg) = db'"
    and prune: "housekeeping_Start (env_prune env) (env_prune_now env) (env_prune_done env)
          (NewHousekeepingLoop True (HousekeepingInterval cfg)) db = (Ok (), hk, db')"
    by (rule start_loops_Ok) (auto intro: that)
  have "schema_ok db'"
    using New_schema_ok [OF db(1)] housekeeping_Start_effect(1) [OF prune] by auto
  ultimately show ?thesis
    using load root(1) outcome result r db(2) by (auto simp: Let_def GetStatus_def UpdateFromResult_def)
qed

text \<open>C7. With the library assigning only tagged fields, a running program counts nothing: the kernel is as
  before the start, no interface has a classifier, and yet the status names every interface that passed
  its checks as attached and the mode is healthy or degraded.\<close>

theorem running_attaches_nothing:
  assumes "assigns_tagged_fields (env_lib env)"
    and "main_start env configPath ebpfObjectPath w files = (Ok r, w', files')"
  shows "w' = w \<and> \<not> IsIfaceAttached (svc_manager (run_svc r)) n \<and>
    st_AttachedInterfaces (GetStatus (run_svc r)) =
      filter (usable (NewValidator (env_os env) (run_cfg r))) (Interfaces (run_cfg r)) \<and>
    (IsHealthy (run_svc r) \<or> IsDegraded (run_svc r))"
proof -
  obtain cfg result err svc where load: "Validate cfg = Ok ()"
    and check: "Validator_Validate (NewValidator (env_os env) cfg) = (result, err)"
    and start: "Service_Start (env_tcx env) (env_lib env) (env_stat env) (NewService cfg ebpfObjectPath) w = (Ok (), svc, w')"
    and mode: "IsHealthy (UpdateFromResult result svc) \<or> IsDegraded (UpdateFromResult result svc)"
    and loops: "start_loops env cfg (UpdateFromResult result svc) files = (Ok r, files')"
    using main_start_Ok [OF assms(2)] by metis
  from start obtain coll tm where "RemoveMemlock (env_lib env) = Ok ()"
    "LoadTrafficObjects (env_lib env) (env_stat env) (NewLoader ebpfObjectPath) = Ok (coll, tm)"
    by (auto simp: Service_Start_def PrepareMemlock_def NewService_def split: sum.splits)
  from Start_attaches_nothing [OF assms(1) this start]
  have none: "w' = w" "\<not> IsIfaceAttached (svc_manager svc) n" for n by auto
  have some: "Interfaces cfg \<noteq> []" using load by (auto simp: Validate_def)
  have "res_Mode result \<noteq> ModeFailed" using mode by (auto simp: IsHealthy_def IsDegraded_def UpdateFromResult_def)
  from validator_needs_root(2) [OF check some this] have "res_AttachedInterfaces result = filter (usable (NewValidator (env_os env) cfg)) (Interfaces cfg)"
    using Validate_outcome [OF _ _ check] some by simp
  moreover from loops have "run_cfg r = cfg" "run_svc r = UpdateFromResult result svc"
    by (rule start_loops_Ok, simp)+
  ultimately show ?thesis using none mode by (simp add: GetStatus_def UpdateFromResult_def)
qed

text \<open>C24. A real object never starts. The two fields of the struct handed to \<open>LoadAndAssign\<close> have no tag and are
  nil pointers, which the library refuses; an object of more than 100 bytes is not taken for a
  placeholder then. So with a compiled object installed, whatever the configuration and the host are,
  the start fails before it has changed a link or a file; only a placeholder lets the program run.\<close>

theorem real_object_never_starts:
  assumes "refuses_nil_structs (env_lib env)" and "env_stat env 2 = StatSize n" and "100 < n"
  shows "\<exists>e. main_start env configPath ebpfObjectPath w files = (Fail e, w, files)"
proof -
  have "\<not> isMockMode (env_stat env 2)" using assms(2,3) by (simp add: isMockMode_def)
  then obtain e where load: "LoadTrafficObjects (env_lib env) (env_stat env) (NewLoader ebpfObjectPath) = Fail e"
    using LoadTrafficObjects_refused [OF assms(1)] by blast
  have fails: "\<exists>e' s. Service_Start (env_tcx env) (env_lib env) (env_stat env) (NewService cfg ebpfObjectPath) w = (Fail e', s, w)" for cfg
    by (auto simp: Service_Start_def NewService_def load split: sum.split)
  show ?thesis
  proof (cases "Load (env_ReadFile env) configPath")
    case (Inr cfg)
    obtain e' s where "Service_Start (env_tcx env) (env_lib env) (env_stat env) (NewService cfg ebpfObjectPath) w = (Fail e', s, w)"
      using fails by blast
    with Inr show ?thesis by (auto simp: main_start_def split: prod.splits sum.splits)
  qed (simp add: main_start_def)
qed

text \<open>C30. The flush loop of a running program never records anything. The library encodes the key struct with
  \<open>encoding/binary\<close>, in 10 bytes, and refuses it for a map with keys of 12, so the first entry of the
  traffic map cannot be read, whatever the kernel answers. Every flush with the program's traffic map
  reports success, clears the stored error and records its time, and leaves the database as it was.\<close>

theorem running_flush_records_nothing:
  assumes "\<forall>h. ebpf_NewMap (env_lib env) TrafficMapSpec = Ok h \<longrightarrow> binary_encoding TrafficMapSpec h"
    and "main_start env configPath ebpfObjectPath w files = (Ok r, w', files')"
    and "fl_trafficMap f = fl_trafficMap (run_flush r)"
  shows "Flush io now0 now1 f db = Some (Ok (), f\<lparr>fl_lastFlush := now1, fl_flushErr := None\<rparr>, db)"
proof -
  obtain cfg result err svc where
    start: "Service_Start (env_tcx env) (env_lib env) (env_stat env) (NewService cfg ebpfObjectPath) w = (Ok (), svc, w')"
    and loops: "start_loops env cfg (UpdateFromResult result svc) files = (Ok r, files')"
    using main_start_Ok [OF assms(2)] by metis
  from start obtain h where h: "ebpf_NewMap (env_lib env) TrafficMapSpec = Ok h"
    and tm: "Service_GetTrafficMap svc = Some \<lparr>tm_m = Some h\<rparr>" by (rule Service_Start_map)
  from loops have "run_flush r = NewFlushLoop True (Service_GetTrafficMap (UpdateFromResult result svc)) (FlushInterval cfg)"
    by (rule start_loops_Ok) simp
  with assms(3) tm have f: "fl_trafficMap f = Some \<lparr>tm_m = Some h\<rparr>"
    by (simp add: NewFlushLoop_def Service_GetTrafficMap_def UpdateFromResult_def)
  have "binary_encoding TrafficMapSpec h" using assms(1) h by blast
  moreover have "iterErr Iterate = None" by (simp add: Iterate_def)
  ultimately obtain mi e where "Next h Iterate = (None, mi)" by (rule binary_encoding_reads_nothing)
  then have "reads h Iterate [] mi" by (rule reads.stops)
  with f show ?thesis by (simp add: Flush_def TrafficMap_Map_def reads_flush_loop)
qed

section \<open>Witnesses and the loops' intervals\<close>

theorem real_object_never_starts_witness:
  "\<exists>e. main_start ((sample_env sample_text)\<lparr>env_stat := (\<lambda>_. StatSize 20000)\<rparr>) ''config.json'' [] sample_host (\<lambda>_. empty_file) =
     (Fail e, sample_host, \<lambda>_. empty_file)"
  by (rule real_object_never_starts [where n = 20000]) (simp_all add: sample_env_def sample_lib_refuses)

theorem running_flush_records_nothing_witness:
  "\<exists>r w' files'. main_start (sample_env sample_text) ''config.json'' [] sample_host (\<lambda>_. empty_file) = (Ok r, w', files') \<and>
     Flush (\<lambda>_. no_faults) 5 7 (run_flush r) fresh_db =
       Some (Ok (), (run_flush r)\<lparr>fl_lastFlush := 7, fl_flushErr := None\<rparr>, fresh_db)"
proof -
  obtain r w' files' where run: "main_start (sample_env sample_text) ''config.json'' [] sample_host (\<lambda>_. empty_file) = (Ok r, w', files')"
    by (rule sample_running)
  have "\<forall>h. ebpf_NewMap (env_lib (sample_env sample_text)) TrafficMapSpec = Ok h \<longrightarrow> binary_encoding TrafficMapSpec h"
    by (auto simp: sample_env_def sample_lib_def binary_encoding_cilium)
  from running_flush_records_nothing [OF this run refl] run show ?thesis by blast
qed

theorem startup_keeps_history_witness:
  "\<exists>r w' files'. main_start (sample_env sample_text) ''config.json'' [] sample_host (\<lambda>_. empty_file) = (r, w', files') \<and>
     total_cells (files' ''./traffic-count.db'') (record_key sample_key) = None"
proof -
  obtain r w' files' where run: "main_start (sample_env sample_text) ''config.json'' [] sample_host (\<lambda>_. empty_file) = (r, w', files')"
    by (cases "main_start (sample_env sample_text) ''config.json'' [] sample_host (\<lambda>_. empty_file)")
  from startup_keeps_history [OF run, THEN conjunct1] run show ?thesis
    by (auto simp: total_cells_def empty_file_def)
qed

theorem running_means_ready_witness:
  "\<exists>r w' files'. main_start (sample_env sample_text) ''config.json'' [] sample_host (\<lambda>_. empty_file) = (Ok r, w', files') \<and>
     schema_ok (files' ''./traffic-count.db'') \<and> st_AttachedInterfaces (GetStatus (run_svc r)) \<noteq> []"
proof -
  obtain r w' files' where run: "main_start (sample_env sample_text) ''config.json'' [] sample_host (\<lambda>_. empty_file) = (Ok r, w', files')"
    and cfg: "run_cfg r = sample_cfg" by (rule sample_running)
  have "DatabasePath sample_cfg = ''./traffic-count.db''" by (simp add: sample_cfg_def New_config_def)
  with running_means_ready [OF run] run cfg show ?thesis by (auto simp: Let_def)
qed

theorem running_attaches_nothing_witness:
  "\<exists>r w' files'. main_start (sample_env sample_text) ''config.json'' [] sample_host (\<lambda>_. empty_file) = (Ok r, w', files') \<and>
     w' = sample_host \<and> \<not> IsIfaceAttached (svc_manager (run_svc r)) ''eth0''"
proof -
  obtain r w' files' where run: "main_start (sample_env sample_text) ''config.json'' [] sample_host (\<lambda>_. empty_file) = (Ok r, w', files')"
    by (rule sample_running)
  have "assigns_tagged_fields (env_lib (sample_env sample_text))" using sample_lib_tagged by (simp add: sample_env_def)
  from running_attaches_nothing [OF this run] run show ?thesis by auto
qed

lemma enter_panics:
  "loop_run final interval [Spawn, Enter 0] loop_init =
     Some (runLoop_enter interval 0 (loop_init\<lparr>loops := [Spawned]\<rparr>))"
  by (simp add: loop_init_def at_loop_def)

text \<open>\<open>time.Duration(sec) * time.Second\<close> as a signed number of nanoseconds.\<close>

definition wrapped_duration :: "int \<Rightarrow> int" where
  "wrapped_duration sec = (sec * 1000000000 + 2 ^ 63) mod 2 ^ 64 - 2 ^ 63"

lemma ticker_interval: "NewTicker_ok (word_of_int n * 1000000000) \<longleftrightarrow> 0 < wrapped_duration n"
proof -
  have "(word_of_int n * 1000000000 :: int64) = word_of_int (n * 1000000000)" by simp
  then have "sint (word_of_int n * 1000000000 :: int64) = wrapped_duration n"
    by (simp only: int_word_sint wrapped_duration_def) simp
  then show ?thesis by (simp add: NewTicker_ok_def)
qed

lemma wrapped_duration_small: "\<bar>n\<bar> \<le> 9223372036 \<Longrightarrow> wrapped_duration n = n * 1000000000"
  unfolding wrapped_duration_def by (subst mod_pos_pos_trivial) auto

lemma wrapped_duration_large:
  assumes "9223372036 < n" and "n \<le> 18446744073"
  shows "wrapped_duration n < 0"
proof -
  define x where "x = n * 1000000000 + 2 ^ 63"
  have "x mod 2 ^ 64 = (x - 2 ^ 64) mod 2 ^ 64" by (simp only: minus_mod_self2)
  also have "\<dots> = x - 2 ^ 64" using assms by (intro mod_pos_pos_trivial) (simp_all add: x_def)
  finally show ?thesis using assms by (simp add: wrapped_duration_def x_def)
qed

lemma enter_panics_iff:
  "(\<exists>s. loop_run final interval [Spawn, Enter 0] loop_init = Some s \<and> panicked s) \<longleftrightarrow> \<not> NewTicker_ok interval"
  unfolding enter_panics by (simp add: runLoop_enter_def loop_init_def)

text \<open>C40. Which validated intervals crash the running program. The goroutines of the loops create their
  tickers after \<open>main\<close> has started them, and a ticker of a duration that is not positive panics, which
  ends the process. The duration is the number of seconds times $10^9$, wrapped to 64 bits: each loop
  panics exactly when the wrapped duration is not positive. So the housekeeping loop, whose interval
  \<open>Validate\<close> does not check, panics for 0 and for every negative number down to -9223372036 seconds and
  not for 1 to 9223372036 seconds; the flush loop, whose interval is validated to be positive, does not panic up
  to 9223372036 seconds and does from there to 18446744073. Beyond these bounds the wrapped duration
  decides alone.\<close>

theorem validated_interval_panics:
  assumes "main_start env configPath ebpfObjectPath w files = (Ok r, w', files')"
  shows "let hk_panics = (\<exists>s. loop_run False (hk_Interval (run_housekeeping r)) [Spawn, Enter 0] loop_init = Some s \<and> panicked s);
      fl_panics = (\<exists>s. loop_run True (fl_Interval (run_flush r)) [Spawn, Enter 0] loop_init = Some s \<and> panicked s);
      hk = HousekeepingInterval (run_cfg r); fl = FlushInterval (run_cfg r) in
    (hk_panics \<longleftrightarrow> wrapped_duration hk \<le> 0) \<and> (fl_panics \<longleftrightarrow> wrapped_duration fl \<le> 0) \<and>
    (\<bar>hk\<bar> \<le> 9223372036 \<longrightarrow> (hk_panics \<longleftrightarrow> hk \<le> 0)) \<and>
    (fl \<le> 18446744073 \<longrightarrow> (fl_panics \<longleftrightarrow> 9223372036 < fl))"
proof -
  obtain cfg svc where "Validate cfg = Ok ()" and loops: "start_loops env cfg svc files = (Ok r, files')"
    using main_start_Ok [OF assms(1)] by metis
  from this(1) have positive: "0 < FlushInterval cfg" by (simp add: Validate_Ok_iff)
  from loops obtain db hk db' where prune: "housekeeping_Start (env_prune env) (env_prune_now env) (env_prune_done env)
        (NewHousekeepingLoop True (HousekeepingInterval cfg)) db = (Ok (), hk, db')"
    and run: "r = \<lparr>run_cfg = cfg, run_svc = svc,
        run_flush = NewFlushLoop True (Service_GetTrafficMap svc) (FlushInterval cfg), run_housekeeping = hk\<rparr>"
    by (rule start_loops_Ok)
  have r: "run_cfg r = cfg" "hk_Interval (run_housekeeping r) = word_of_int (HousekeepingInterval cfg) * 1000000000"
    "fl_Interval (run_flush r) = word_of_int (FlushInterval cfg) * 1000000000"
    using housekeeping_Start_effect(2) [OF prune] by (simp_all add: run NewHousekeepingLoop_def NewFlushLoop_def)
  have hk: "\<not> 0 < wrapped_duration n \<longleftrightarrow> n \<le> 0" if "\<bar>n\<bar> \<le> 9223372036" for n
    using wrapped_duration_small [OF that] by (simp add: not_less)
  have fl: "\<not> 0 < wrapped_duration n \<longleftrightarrow> 9223372036 < n" if "0 < n" "n \<le> 18446744073" for n
    using wrapped_duration_small [of n] wrapped_duration_large [of n] that by (cases "n \<le> 9223372036") simp_all
  show ?thesis
    unfolding Let_def enter_panics_iff r ticker_interval
    using hk [of "HousekeepingInterval cfg"] fl [of "FlushInterval cfg", OF positive]
    by (auto simp: r(1) not_less)
qed

theorem validated_interval_panics_witness:
  "\<exists>r w' files' s. main_start (sample_env sample_text) ''config.json'' [] sample_host (\<lambda>_. empty_file) = (Ok r, w', files') \<and>
     Validate (run_cfg r) = Ok () \<and>
     loop_run False (hk_Interval (run_housekeeping r)) [Spawn, Enter 0] loop_init = Some s \<and> panicked s"
proof -
  obtain r w' files' where run: "main_start (sample_env sample_text) ''config.json'' [] sample_host (\<lambda>_. empty_file) = (Ok r, w', files')"
    and cfg: "run_cfg r = sample_cfg" by (rule sample_running)
  have "HousekeepingInterval sample_cfg \<le> 0" "\<bar>HousekeepingInterval sample_cfg\<bar> \<le> 9223372036"
    by (simp_all add: sample_cfg_def New_config_def)
  with validated_interval_panics [OF run, unfolded cfg Let_def, THEN conjunct2, THEN conjunct2, THEN conjunct1]
  obtain s where "loop_run False (hk_Interval (run_housekeeping r)) [Spawn, Enter 0] loop_init = Some s" "panicked s"
    by blast
  with run sample_valid [folded cfg] show ?thesis by blast
qed

section \<open>The end of the program\<close>

lemma main_start_service:
  assumes "main_start env configPath ebpfObjectPath w files = (Ok r, w1, files1)"
  obtains svc where "Service_Start (env_tcx env) (env_lib env) (env_stat env) (NewService (run_cfg r) ebpfObjectPath) w = (Ok (), svc, w1)"
    and "svc_manager (run_svc r) = svc_manager svc"
proof -
  obtain cfg result err svc where
    start: "Service_Start (env_tcx env) (env_lib env) (env_stat env) (NewService cfg ebpfObjectPath) w = (Ok (), svc, w1)"
    and loops: "start_loops env cfg (UpdateFromResult result svc) files = (Ok r, files1)"
    using main_start_Ok [OF assms] by metis
  from loops have "run_cfg r = cfg" "run_svc r = UpdateFromResult result svc" by (rule start_loops_Ok, simp)+
  with start show thesis by (intro that [of svc]) (simp_all add: UpdateFromResult_def)
qed

text \<open>C5. The end of the program loses nothing it can read and leaves nothing behind. Take a running program
  whose configuration names no interface twice, started on a host without links of its own, whose loops
  have positive intervals, were started once and not stopped yet, in whatever state they are, and a
  traffic map whose iteration comes to an end, through its last key or a failed read. Then the waits of
  both \<open>Stop\<close> calls can always come to their end, in three events each, and the shutdown with them.
  However it comes to its end, only the configured database was written; when the final flush reported
  success, every key it read has its checkpoint at the counters read last; and when no close reported
  a failure, no link of the program is left in the kernel, no interface counts as attached and the
  service is in failed mode.\<close>

theorem shutdown_persists_and_detaches:
  assumes "tcx_api (env_tcx env) live" and "live w = {}" and "distinct (Interfaces (run_cfg r))"
    and "main_start env configPath ebpfObjectPath w files = (Ok r, w1, files1)"
    and "map_order (svc_manager (run_svc r)) order"
    and "loop_reach False (hk_Interval (run_housekeeping r)) hs" and "NewTicker_ok (hk_Interval (run_housekeeping r))"
    and "length (loops hs) = 1" and "\<not> stopped hs"
    and "loop_reach True (fl_Interval f) fs" and "NewTicker_ok (fl_Interval f)"
    and "length (loops fs) = 1" and "\<not> stopped fs"
    and "reads m Iterate es mi"
  shows "(\<exists>evh evf out. length evh \<le> 3 \<and> length evf \<le> 3 \<and>
      main_shutdown env evh hs evf fs io now0 now1 order (r\<lparr>run_flush := with_map f m\<rparr>) w1 files2 = Some out) \<and>
    (\<forall>evh evf res results r' w2 files3.
      main_shutdown env evh hs evf fs io now0 now1 order (r\<lparr>run_flush := with_map f m\<rparr>) w1 files2 =
        Some (res, results, r', w2, files3) \<longrightarrow>
      (\<forall>p. p \<noteq> DatabasePath (run_cfg r) \<longrightarrow> files3 p = files2 p) \<and>
      (res = Ok () \<longrightarrow> (\<forall>key c. map_of (rev es) key = Some c \<longrightarrow>
        cp_cells (files3 (DatabasePath (run_cfg r))) (record_key key) = Some (CurrentDateUTC now0, sql_of c))) \<and>
      ((\<forall>x \<in> set results. ar_State x \<noteq> StateFailed) \<longrightarrow>
        live w2 = {} \<and> IsFailed (run_svc r') \<and> \<not> IsIfaceAttached (svc_manager (run_svc r')) n))"
proof -
  let ?path = "DatabasePath (run_cfg r)"
  obtain svc where start: "Service_Start (env_tcx env) (env_lib env) (env_stat env)
      (NewService (run_cfg r) ebpfObjectPath) w = (Ok (), svc, w1)"
    and man: "svc_manager (run_svc r) = svc_manager svc" by (rule main_start_service [OF assms(4)])
  have acc: "accounted (live w1) (svc_manager (run_svc r))"
    unfolding man using assms(1-3) start by (rule Start_accounted)
  obtain results svc' w2 where stop: "Service_Stop (env_tcx env) order (run_svc r) w1 = (results, svc', w2)"
    by (metis prod_cases3)
  obtain res fl db where flush: "Flush io now0 now1 (with_map f m) (files2 ?path) = Some (res, fl, db)"
    by (cases "flush_entries io (CurrentDateUTC now0) 0 es (files2 ?path)";
        cases "fst (flush_entries io (CurrentDateUTC now0) 0 es (files2 ?path))")
      (auto simp: Flush_reads [OF assms(14)])
  let ?out = "(wrap_fail ''final flush: %w'' res, results, r\<lparr>run_flush := fl, run_svc := svc'\<rparr>, w2, files2(?path := db))"
  have run: "main_shutdown env evh hs evf fs io now0 now1 order (r\<lparr>run_flush := with_map f m\<rparr>) w1 files2 =
      (if stop_waits False (hk_Interval (run_housekeeping r)) evh hs = Some Returned \<and>
         stop_waits True (fl_Interval f) evf fs = Some FinalWork then Some ?out else None)" for evh evf
    using flush stop assms(13) by (simp add: main_shutdown_def Let_def with_map_def)
  obtain evh where evh: "length evh \<le> 3" "stop_waits False (hk_Interval (run_housekeeping r)) evh hs = Some Returned"
    using stop_waits_ends [OF assms(6-9)] by auto
  obtain evf where evf: "length evf \<le> 3" "stop_waits True (fl_Interval f) evf fs = Some FinalWork"
    using stop_waits_ends [OF assms(10-13)] by auto
  have cps: "\<forall>key c. map_of (rev es) key = Some c \<longrightarrow> cp_cells db (record_key key) = Some (CurrentDateUTC now0, sql_of c)"
    if "res = Ok ()" using Flush_reads_cp [OF _ assms(14), of io now0 now1 f "files2 ?path" fl db] flush that by blast
  have gone: "live w2 = {} \<and> IsFailed svc' \<and> \<not> IsIfaceAttached (svc_manager svc') n"
    if "\<forall>x \<in> set results. ar_State x \<noteq> StateFailed"
    using Stop_releases [OF assms(1) acc assms(5) stop that] by blast
  show ?thesis
  proof (intro conjI allI impI)
    show "\<exists>evh evf out. length evh \<le> 3 \<and> length evf \<le> 3 \<and>
      main_shutdown env evh hs evf fs io now0 now1 order (r\<lparr>run_flush := with_map f m\<rparr>) w1 files2 = Some out"
      using evh evf by (intro exI [of _ evh] exI [of _ evf] exI [of _ ?out]) (simp add: run)
  qed (use cps gone in \<open>auto simp: run wrap_fail_Ok_iff split: if_splits\<close>)
qed

text \<open>A running program with two links, stopped while its loops select.\<close>

definition live_text :: string where
  \<open>live_text = ''{"Interfaces": ["eth0"]}''\<close>

definition live_cfg :: Config where
  "live_cfg = New_config\<lparr>Interfaces := [''eth0'']\<rparr>"

definition live_env :: "host environment" where
  "live_env = (sample_env live_text)\<lparr>env_lib := full_lib, env_stat := (\<lambda>_. StatSize 20000)\<rparr>"

lemma live_load: "Load (env_ReadFile live_env) ''config.json'' = Ok live_cfg"
proof -
  have "json_scan live_text = Ok (JObject [(''Interfaces'', JArray [JString ''eth0''])])" by code_simp
  then show ?thesis
    by (simp add: Load_def LoadFromFile_def Parse_def Unmarshal_def live_env_def sample_env_def match_field_names
        set_field_def live_cfg_def New_config_def)
qed

lemma live_valid: "Validate live_cfg = Ok ()"
  by code_simp

lemma eth0_lists:
  "(\<lambda>(sl, m, w). sl_failed sl) (start_iface host_tcx ''eth0'' (no_lists, SetCollection
     (Some \<lparr>coll_ingress = Some 1, coll_egress = Some 2\<rparr>) tm NewAttachmentManager, sample_host)) = []"
  by code_simp

lemma eth0_service:
  assumes "Interfaces cfg = [''eth0'']"
  obtains svc w where
    "Service_Start host_tcx full_lib (\<lambda>_. StatSize 20000) (NewService cfg []) sample_host = (Ok (), svc, w)"
    and "map_order (svc_manager svc) [''eth0'']" and "host_live w = {1, 2}"
proof -
  have mem: "PrepareMemlock full_lib = Ok ()" by (simp add: PrepareMemlock_def full_lib_def sample_lib_def)
  let ?m = "SetCollection (Some \<lparr>coll_ingress = Some 1, coll_egress = Some 2\<rparr>)
    (Some \<lparr>tm_m = Some (cilium_handle TrafficMapSpec two_entries)\<rparr>) NewAttachmentManager"
  obtain sl m w where it: "start_iface host_tcx ''eth0'' (no_lists, ?m, sample_host) = (sl, m, w)"
    by (metis prod_cases3)
  with eth0_lists [of "Some \<lparr>tm_m = Some (cilium_handle TrafficMapSpec two_entries)\<rparr>"] have "sl_failed sl = []" by simp
  with it mem full_lib_loads assms have "\<exists>svc. Service_Start host_tcx full_lib (\<lambda>_. StatSize 20000)
      (NewService cfg []) sample_host = (Ok (), svc, w) \<and> svc_manager svc = m"
    by (simp add: Service_Start_def NewService_def Let_def)
  with eth0_start [OF it] that show thesis by blast
qed

lemma live_running:
  obtains r w files where
    "main_start live_env ''config.json'' [] sample_host (\<lambda>_. empty_file) = (Ok r, w, files)"
    and "run_cfg r = live_cfg" and "hk_Interval (run_housekeeping r) = word_of_int 3600 * 1000000000"
    and "map_order (svc_manager (run_svc r)) [''eth0'']" and "host_live w = {1, 2}"
proof -
  obtain svc w where start: "Service_Start host_tcx full_lib (\<lambda>_. StatSize 20000) (NewService live_cfg []) sample_host = (Ok (), svc, w)"
    and order: "map_order (svc_manager svc) [''eth0'']" and live: "host_live w = {1, 2}"
    by (rule eth0_service [of live_cfg]) (simp add: live_cfg_def)
  let ?result = "\<lparr>res_Mode = ModeHealthy, res_TotalInterfaces = 1, res_AttachedInterfaces = [''eth0''],
       res_FailedInterfaces = [], res_AttachErrors = []\<rparr>"
  let ?svc = "UpdateFromResult ?result svc"
  have check: "Validator_Validate (NewValidator (env_os live_env) live_cfg) = (?result, None)"
    by (simp add: Validator_Validate_def NewValidator_def opt_check_def realCheckCapabilities_def
        realValidateInterface_def realCheckQdisc_def live_env_def sample_env_def live_cfg_def New_config_def)
  obtain run files' where loops: "start_loops live_env live_cfg ?svc (\<lambda>_. empty_file) = (Ok run, files')"
    using fresh_start_loops [of live_env live_cfg ?svc] by (auto simp: live_env_def sample_env_def)
  from loops obtain hk db db' where hk: "housekeeping_Start (env_prune live_env) (env_prune_now live_env) (env_prune_done live_env)
        (NewHousekeepingLoop True (HousekeepingInterval live_cfg)) db = (Ok (), hk, db')"
    and run: "run = \<lparr>run_cfg = live_cfg, run_svc = ?svc,
        run_flush = NewFlushLoop True (Service_GetTrafficMap ?svc) (FlushInterval live_cfg), run_housekeeping = hk\<rparr>"
    by (rule start_loops_Ok)
  have env: "env_tcx live_env = host_tcx" "env_lib live_env = full_lib" "env_stat live_env = (\<lambda>_. StatSize 20000)"
    by (simp_all add: live_env_def sample_env_def)
  have "IsHealthy ?svc" by (simp add: IsHealthy_def UpdateFromResult_def)
  then have "main_start live_env ''config.json'' [] sample_host (\<lambda>_. empty_file) = (Ok run, w, files')"
    unfolding main_start_def live_load env sum.case live_valid check prod.case start Let_def loops by simp
  moreover have "hk_Interval hk = word_of_int 3600 * 1000000000"
    using housekeeping_Start_effect(2) [OF hk] by (simp add: NewHousekeepingLoop_def live_cfg_def New_config_def)
  moreover have "run_cfg run = live_cfg" "run_housekeeping run = hk" "svc_manager (run_svc run) = svc_manager svc"
    by (simp_all add: run UpdateFromResult_def)
  ultimately show thesis using order live by (intro that [of run w files']) simp_all
qed

definition selecting :: loop_state where
  "selecting = loop_init\<lparr>loops := [Selecting]\<rparr>"

lemma selecting_reach: "NewTicker_ok interval \<Longrightarrow> loop_reach final interval selecting"
  by (rule loop_run_reach [OF loop_reach.init, of final interval "[Spawn, Enter 0]"])
    (simp add: selecting_def loop_init_def at_loop_def runLoop_enter_def)

lemma selecting_stops:
  "stop_waits final interval [SeesStop 0, StopSeesStopped 0] selecting = Some (if final then FinalWork else Returned)"
  by (simp add: stop_waits_def selecting_def loop_init_def at_loop_def at_stop_def Stop_enter_def runLoop_return_def)

theorem shutdown_persists_and_detaches_witness:
  "\<exists>r w1 files1 results r' w2 files3.
     main_start live_env ''config.json'' [] sample_host (\<lambda>_. empty_file) = (Ok r, w1, files1) \<and> host_live w1 = {1, 2} \<and>
     main_shutdown live_env [SeesStop 0, StopSeesStopped 0] selecting [SeesStop 0, StopSeesStopped 0] selecting
       (\<lambda>_. no_faults) noon1 noon1 [''eth0'']
       (r\<lparr>run_flush := with_map sample_loop (snapshot [(sample_key, sample_counters)])\<rparr>) w1 (\<lambda>_. fresh_db) =
       Some (Ok (), results, r', w2, files3) \<and>
     cp_cells (files3 ''./traffic-count.db'') (record_key sample_key) = Some (''2024-01-01'', sql_of sample_counters) \<and>
     host_live w2 = {}"
proof -
  obtain r w1 files1 where run: "main_start live_env ''config.json'' [] sample_host (\<lambda>_. empty_file) = (Ok r, w1, files1)"
    and cfg: "run_cfg r = live_cfg" and hk: "hk_Interval (run_housekeeping r) = word_of_int 3600 * 1000000000"
    and order: "map_order (svc_manager (run_svc r)) [''eth0'']" and live: "host_live w1 = {1, 2}" by (rule live_running)
  let ?m = "[(sample_key, sample_counters)]"
  let ?r = "r\<lparr>run_flush := with_map sample_loop (snapshot ?m)\<rparr>"
  obtain mi where reads: "reads (snapshot ?m) Iterate (AList.clearjunk ?m) mi" using rest.reads_entries by blast
  have tick: "NewTicker_ok (hk_Interval (run_housekeeping r))" "NewTicker_ok (fl_Interval sample_loop)"
    by (simp_all add: hk NewTicker_ok_def sample_loop_def NewFlushLoop_def)
  have tcx: "tcx_api (env_tcx live_env) host_live" using host.tcx_api_axioms by (simp add: live_env_def sample_env_def)
  have pre: "host_live sample_host = {}" "distinct (Interfaces (run_cfg r))" "DatabasePath (run_cfg r) = ''./traffic-count.db''"
    by (simp_all add: host_live_def sample_host_def cfg live_cfg_def New_config_def)
  have loop: "length (loops selecting) = 1" "\<not> stopped selecting" by (simp_all add: selecting_def loop_init_def)
  obtain fl db where flush: "Flush (\<lambda>_. no_faults) noon1 noon1 (with_map sample_loop (snapshot ?m)) fresh_db = Some (Ok (), fl, db)"
    using sample_flush_ok by auto
  obtain results svc w2 where stop: "Service_Stop (env_tcx live_env) [''eth0''] (run_svc r) w1 = (results, svc, w2)"
    by (metis prod_cases3)
  have closes: "\<forall>res \<in> set results. ar_State res \<noteq> StateFailed"
    using stop by (auto simp: Service_Stop_def DetachIface_def detachDirection_def live_env_def sample_env_def host_tcx_def Let_def
        split: prod.splits option.splits if_splits)
  let ?files = "(\<lambda>_. fresh_db)(''./traffic-count.db'' := db)"
  have down: "main_shutdown live_env [SeesStop 0, StopSeesStopped 0] selecting [SeesStop 0, StopSeesStopped 0] selecting
       (\<lambda>_. no_faults) noon1 noon1 [''eth0''] ?r w1 (\<lambda>_. fresh_db) =
       Some (Ok (), results, r\<lparr>run_flush := fl, run_svc := svc\<rparr>, w2, ?files)"
    using flush stop loop(2) by (simp add: main_shutdown_def Let_def selecting_stops pre(3) wrap_fail_def)
  note all = shutdown_persists_and_detaches [OF tcx pre(1,2) run order selecting_reach [OF tick(1)] tick(1) loop
      selecting_reach [OF tick(2)] tick(2) loop reads, THEN conjunct2, rule_format, OF down]
  have "cp_cells (?files ''./traffic-count.db'') (record_key sample_key) = Some (''2024-01-01'', sql_of sample_counters)"
    using all [THEN conjunct2, THEN conjunct1] by (simp add: pre(3) noon_dates)
  moreover have "host_live w2 = {}" using all [THEN conjunct2, THEN conjunct2] closes by blast
  ultimately show ?thesis using run live down by (intro exI conjI)
qed

end
