(* ===== verification/Http_Server.thy ===== *)
theory Http_Server
  imports Http_Api
begin

text \<open>
  The server of \<open>internal/http/http.go\<close>: the patterns that \<open>NewServer\<close> registers and the way of a request
  from the connection through the multiplexer to a handler. The module states \<open>go 1.21.0\<close>, so a newer
  toolchain builds it with \<open>httpmuxgo121=1\<close> as the default of \<open>GODEBUG\<close> and \<open>net/http\<close> uses the
  multiplexer of Go 1.21, the one modelled here: its patterns have no methods, a pattern that does not
  begin with a slash begins with a host.
\<close>

section \<open>The multiplexer\<close>

datatype endpoint = Healthz | StatusPage | TrafficPage

type_synonym mux = "(string \<times> endpoint) list"

text \<open>\<open>HandleFunc\<close> panics on an empty pattern and on one registered twice; \<open>None\<close> is the panic.\<close>

definition HandleFunc :: "string \<Rightarrow> endpoint \<Rightarrow> mux \<Rightarrow> mux option" where
  "HandleFunc pattern h m =
     (if pattern = [] \<or> map_of m pattern \<noteq> None then None else Some (m @ [(pattern, h)]))"

text \<open>An exact match, or else the longest registered pattern that ends in a slash and is a prefix.\<close>

definition longer_pattern :: "(string \<times> endpoint) option \<Rightarrow> string \<times> endpoint \<Rightarrow> (string \<times> endpoint) option" where
  "longer_pattern best e =
     (case best of None \<Rightarrow> Some e | Some b \<Rightarrow> if length (fst b) < length (fst e) then Some e else Some b)"

definition mux_match :: "mux \<Rightarrow> string \<Rightarrow> endpoint option" where
  "mux_match m path =
     (case map_of m path of
        Some h \<Rightarrow> Some h
      | None \<Rightarrow> map_option snd (foldl longer_pattern None
          (filter (\<lambda>(p, _). p \<noteq> [] \<and> last p = CHR ''/'' \<and> take (length p) path = p) m)))"

text \<open>A pattern with a host goes before one without.\<close>

definition mux_handler :: "mux \<Rightarrow> string \<Rightarrow> string \<Rightarrow> endpoint option" where
  "mux_handler m host path =
     (let hosts = (\<exists>(p, _) \<in> set m. hd p \<noteq> CHR ''/'') in
      case (if hosts then mux_match m (host @ path) else None) of
        Some h \<Rightarrow> Some h
      | None \<Rightarrow> mux_match m path)"

definition shouldRedirect :: "mux \<Rightarrow> string \<Rightarrow> string \<Rightarrow> bool" where
  "shouldRedirect m host path \<longleftrightarrow>
     map_of m path = None \<and> map_of m (host @ path) = None \<and> path \<noteq> [] \<and> last path \<noteq> CHR ''/'' \<and>
     (map_of m (path @ ''/'') \<noteq> None \<or> map_of m (host @ path @ ''/'') \<noteq> None)"

definition stripHostPort :: "string \<Rightarrow> string" where
  "stripHostPort h =
     (if CHR '':'' \<notin> set h then h
      else case SplitHostPort h of Inl _ \<Rightarrow> h | Inr (host, _) \<Rightarrow> host)"

text \<open>\<open>path.Clean\<close> of a path that begins with a slash.\<close>

fun strings_Split :: "char \<Rightarrow> string \<Rightarrow> string list" where
  "strings_Split sep [] = [[]]"
| "strings_Split sep (c # cs) =
     (if c = sep then [] # strings_Split sep cs
      else case strings_Split sep cs of [] \<Rightarrow> [[c]] | s # ss \<Rightarrow> (c # s) # ss)"

definition clean_step :: "string list \<Rightarrow> string \<Rightarrow> string list" where
  "clean_step stack s =
     (if s = [] \<or> s = ''.'' then stack else if s = ''..'' then tl stack else s # stack)"

definition path_Clean :: "string \<Rightarrow> string" where
  "path_Clean p = CHR ''/'' # strings_Join (rev (foldl clean_step [] (strings_Split CHR ''/'' p))) ''/''"

definition cleanPath :: "string \<Rightarrow> string" where
  "cleanPath p =
     (if p = [] then ''/''
      else let p = (if hd p \<noteq> CHR ''/'' then CHR ''/'' # p else p);
               np = path_Clean p
           in if last p = CHR ''/'' \<and> np \<noteq> ''/'' then np @ ''/'' else np)"

record Request =
  req_Method :: string
  req_Host :: string
  req_RequestURI :: string
  req_Path :: string
  req_Query :: query

datatype route =
    Handler endpoint
  | MovedPermanently string
  | PageNotFound

definition handler_route :: "endpoint option \<Rightarrow> route" where
  "handler_route h = (case h of None \<Rightarrow> PageNotFound | Some e \<Rightarrow> Handler e)"

definition findHandler :: "mux \<Rightarrow> Request \<Rightarrow> route" where
  "findHandler m r =
     (if req_Method r = ''CONNECT'' then
        (if shouldRedirect m (req_Host r) (req_Path r) then MovedPermanently (req_Path r @ ''/'')
         else handler_route (mux_handler m (req_Host r) (req_Path r)))
      else
        (let host = stripHostPort (req_Host r); path = cleanPath (req_Path r) in
         if shouldRedirect m host path then MovedPermanently (path @ ''/'')
         else if path \<noteq> req_Path r then MovedPermanently path
         else handler_route (mux_handler m host path)))"

section \<open>The server\<close>

text \<open>
  The service, the repository and the flush loop that the Go struct also holds are read when a request
  is served: they are arguments of \<open>serve\<close>.
\<close>

record Server =
  srv_cfg :: Config
  srv_mux :: mux

definition NewServer :: "Config \<Rightarrow> Server option" where
  "NewServer cfg =
     Option.bind (HandleFunc ''GET /healthz'' Healthz []) (\<lambda>m.
     Option.bind (HandleFunc ''GET /api/v1/status'' StatusPage m) (\<lambda>m.
     Option.bind (HandleFunc ''GET /api/v1/traffic'' TrafficPage m) (\<lambda>m.
     Some \<lparr>srv_cfg = cfg, srv_mux = m\<rparr>)))"

text \<open>
  What \<open>net/http\<close> checks when it reads a request: the characters of the host, and the path, which is empty
  (\<open>CONNECT\<close>), a star or begins with a slash. The multiplexer refuses the star.
\<close>

definition validHostByte :: "char \<Rightarrow> bool" where
  "validHostByte c \<longleftrightarrow> (let n = (of_char c :: nat) in
     48 \<le> n \<and> n \<le> 57 \<or> 65 \<le> n \<and> n \<le> 90 \<or> 97 \<le> n \<and> n \<le> 122) \<or>
     c \<in> set ''!$%&()*+,-.:;=[]_~'' \<or> c = CHR 0x27"

definition well_formed_request :: "Request \<Rightarrow> bool" where
  "well_formed_request r \<longleftrightarrow> list_all validHostByte (req_Host r) \<and> req_RequestURI r \<noteq> ''*'' \<and>
     (req_Path r = [] \<or> req_Path r = ''*'' \<or> hd (req_Path r) = CHR ''/'')"

datatype answer =
    MalformedRequest
  | Redirect string
  | NotFound
  | HealthzAnswer nat
  | StatusAnswer status_response
  | TrafficAnswer traffic_response

definition serve ::
  "(TrafficRecord list \<Rightarrow> TrafficRecord list) \<Rightarrow> db_io \<Rightarrow> time \<Rightarrow> Server \<Rightarrow> ServiceHealth \<Rightarrow> FlushLoopStatus
     \<Rightarrow> Request \<Rightarrow> database \<Rightarrow> answer" where
  "serve rng io now s svc flush r db =
     (if \<not> well_formed_request r then MalformedRequest
      else case findHandler (srv_mux s) r of
        PageNotFound \<Rightarrow> NotFound
      | MovedPermanently path \<Rightarrow> Redirect path
      | Handler Healthz \<Rightarrow> HealthzAnswer (handleHealthz svc flush)
      | Handler StatusPage \<Rightarrow> StatusAnswer (handleStatus (srv_cfg s) svc flush)
      | Handler TrafficPage \<Rightarrow> TrafficAnswer (handleTraffic rng io now (req_Query r) db))"

section \<open>Which requests reach a handler\<close>

definition endpoint_path :: "endpoint \<Rightarrow> string" where
  "endpoint_path e = (case e of
     Healthz \<Rightarrow> ''/healthz'' | StatusPage \<Rightarrow> ''/api/v1/status'' | TrafficPage \<Rightarrow> ''/api/v1/traffic'')"

definition server_mux :: mux where
  "server_mux = map (\<lambda>e. (''GET '' @ endpoint_path e, e)) [Healthz, StatusPage, TrafficPage]"

lemma NewServer_mux: "NewServer cfg = Some \<lparr>srv_cfg = cfg, srv_mux = server_mux\<rparr>"
  by (simp add: NewServer_def HandleFunc_def server_mux_def endpoint_path_def)

lemma server_mux_Some: "map_of server_mux p = Some e \<longleftrightarrow> p = ''GET '' @ endpoint_path e"
  by (cases e) (auto simp: server_mux_def endpoint_path_def)

lemma server_mux_space: "map_of server_mux p \<noteq> None \<Longrightarrow> CHR '' '' \<in> set p"
  by (auto simp: server_mux_Some)

text \<open>No pattern ends in a slash: a match is exact and no slash is appended.\<close>

lemma server_mux_match: "mux_match server_mux p = map_of server_mux p"
proof -
  have "filter (\<lambda>(q, _). q \<noteq> [] \<and> last q = CHR ''/'' \<and> take (length q) p = q) server_mux = []"
    by (simp add: server_mux_def endpoint_path_def)
  then show ?thesis by (simp add: mux_match_def split: option.split)
qed

lemma server_mux_handler:
  "mux_handler server_mux host path =
     (case map_of server_mux (host @ path) of Some h \<Rightarrow> Some h | None \<Rightarrow> map_of server_mux path)"
proof -
  have "\<exists>(p, _) \<in> set server_mux. hd p \<noteq> CHR ''/''" by (simp add: server_mux_def)
  then show ?thesis by (simp add: mux_handler_def server_mux_match [abs_def] cong: option.case_cong)
qed

lemma server_mux_no_slash: "map_of server_mux (p @ ''/'') = None"
proof (rule ccontr)
  assume "map_of server_mux (p @ ''/'') \<noteq> None"
  then obtain e where "p @ ''/'' = ''GET '' @ endpoint_path e" by (auto simp: server_mux_Some)
  then have "last (''GET '' @ endpoint_path e) = CHR ''/''" by (metis last_snoc)
  then show False by (cases e) (simp_all add: endpoint_path_def)
qed

lemma server_mux_no_redirect: "\<not> shouldRedirect server_mux host path"
  using server_mux_no_slash [of path] server_mux_no_slash [of "host @ path"]
  by (simp add: shouldRedirect_def)

lemma server_route_Handler:
  assumes "findHandler server_mux r = Handler e"
  obtains host where "host = req_Host r \<or> host = stripHostPort (req_Host r)"
    and "CHR '' '' \<in> set host \<or> CHR '' '' \<in> set (req_Path r)"
    and "map_of server_mux (host @ req_Path r) = Some e \<or> map_of server_mux (req_Path r) = Some e"
proof -
  define host where "host = (if req_Method r = ''CONNECT'' then req_Host r else stripHostPort (req_Host r))"
  have "mux_handler server_mux host (req_Path r) = Some e"
    using assms
    by (auto simp: findHandler_def server_mux_no_redirect handler_route_def Let_def host_def
      split: if_splits option.splits)
  then have m: "map_of server_mux (host @ req_Path r) = Some e \<or> map_of server_mux (req_Path r) = Some e"
    by (auto simp: server_mux_handler split: option.splits)
  then have "CHR '' '' \<in> set host \<or> CHR '' '' \<in> set (req_Path r)"
    using server_mux_space [of "host @ req_Path r"] server_mux_space [of "req_Path r"] by auto
  with m show ?thesis by (intro that [of host]) (auto simp: host_def)
qed

lemma set_stripHostPort: "set (stripHostPort h) \<subseteq> set h"
  by (auto simp: stripHostPort_def split: sum.splits dest: SplitHostPort_Ok)

lemma no_space_in_host: "list_all validHostByte h \<Longrightarrow> CHR '' '' \<notin> set h"
proof -
  have "\<not> validHostByte CHR '' ''" by (simp add: validHostByte_def)
  then show "list_all validHostByte h \<Longrightarrow> CHR '' '' \<notin> set h" by (auto simp: list_all_iff)
qed

lemma rooted_path_is_no_pattern:
  assumes "map_of server_mux (h @ p) = Some e" and "CHR '' '' \<notin> set h" and "hd p = CHR ''/'' \<or> p = [] \<or> p = ''*''"
  shows False
proof -
  from assms(1) have eq: "h @ p = CHR ''G'' # CHR ''E'' # CHR ''T'' # CHR '' '' # endpoint_path e"
    by (simp add: server_mux_Some)
  with assms(2) have p: "p \<noteq> []" by auto
  from eq have "last (h @ p) \<noteq> CHR ''*''" by (cases e) (simp_all add: endpoint_path_def)
  with p have "p \<noteq> ''*''" by auto
  with assms(3) p obtain q where q: "p = CHR ''/'' # q" by (cases p) auto
  show False
    using eq assms(2) unfolding q by (auto simp: append_eq_Cons_conv)
qed

lemma well_formed_never_routed: "well_formed_request r \<Longrightarrow> findHandler server_mux r \<noteq> Handler e"
proof
  assume wf: "well_formed_request r" and "findHandler server_mux r = Handler e"
  then obtain host where host: "host = req_Host r \<or> host = stripHostPort (req_Host r)"
    and m: "map_of server_mux (host @ req_Path r) = Some e \<or> map_of server_mux (req_Path r) = Some e"
    by (blast elim: server_route_Handler)
  from wf host set_stripHostPort [of "req_Host r"] have "CHR '' '' \<notin> set host"
    using no_space_in_host [of "req_Host r"] by (auto simp: well_formed_request_def)
  with m wf rooted_path_is_no_pattern [of host "req_Path r" e] rooted_path_is_no_pattern [of "[]" "req_Path r" e]
  show False by (auto simp: well_formed_request_def)
qed

lemma clean_endpoint_path: "cleanPath (endpoint_path e) = endpoint_path e"
  by (cases e) (simp_all add: endpoint_path_def cleanPath_def path_Clean_def clean_step_def)

text \<open>C8. The patterns that the server registers are no routes of the API: whatever well-formed request
  arrives, no handler runs, and each of the three documented \<open>GET\<close> requests is answered with the 404 page,
  whatever the state of the service, the flush loop and the database.\<close>

theorem no_request_reaches_a_handler:
  assumes "NewServer cfg = Some s" and "well_formed_request r"
  shows "serve rng io now s svc flush r db \<in> insert NotFound (range Redirect) \<and>
    (req_Method r = ''GET'' \<and> req_Path r = endpoint_path e \<longrightarrow> serve rng io now s svc flush r db = NotFound)"
proof -
  have s: "srv_mux s = server_mux" using assms(1) by (auto simp: NewServer_mux)
  obtain v where v: "findHandler server_mux r = v" and not: "v \<noteq> Handler e'" for e'
    using well_formed_never_routed [OF assms(2)] by blast
  have "v = PageNotFound" if "req_Method r = ''GET''" "req_Path r = endpoint_path e"
    using v not that
    by (auto simp: findHandler_def server_mux_no_redirect clean_endpoint_path handler_route_def split: option.splits)
  with v not assms(2) show ?thesis by (cases v) (auto simp: serve_def s)
qed

text \<open>A probe of a healthy service that has just flushed: the handler would answer 200.\<close>

definition probe :: Request where
  "probe = \<lparr>req_Method = ''GET'', req_Host = ''127.0.0.1:8080'', req_RequestURI = ''/healthz'',
     req_Path = ''/healthz'', req_Query = []\<rparr>"

lemma probe_well_formed: "well_formed_request probe"
  by (simp add: probe_def well_formed_request_def validHostByte_def)

theorem no_request_reaches_a_handler_witness:
  "\<exists>s. NewServer New_config = Some s \<and>
     (\<forall>svc flush. serve id no_faults 0 s svc flush probe empty_file = NotFound)"
proof -
  let ?s = "\<lparr>srv_cfg = New_config, srv_mux = server_mux\<rparr>"
  have "serve id no_faults 0 ?s svc flush probe empty_file = NotFound" for svc flush
    using no_request_reaches_a_handler [OF NewServer_mux probe_well_formed, where e = Healthz]
    by (simp add: probe_def endpoint_path_def)
  with NewServer_mux show ?thesis by blast
qed

end
