(* ===== verification/Tooling.thy ===== *)
theory Tooling
  imports Main_Program Http_Server
begin

text \<open>
  The programs around the daemon: the generator of the eBPF object (\<open>internal/ebpf/generate.go\<close>) and
  the test harness (\<open>internal/testutil/testutil.go\<close>), which builds the daemon out of the same parts as
  \<open>main\<close> does and takes it down again. The shell they call is an argument: commands and file
  operations on a state of its own. The harness runs one daemon; its mutex is left out.
\<close>

record 's shell =
  exec_Run :: "string list \<Rightarrow> 's \<Rightarrow> unit result \<times> 's"
  exec_Output :: "string list \<Rightarrow> 's \<Rightarrow> string result \<times> 's"
  exec_RunIn :: "string \<Rightarrow> string list \<Rightarrow> 's \<Rightarrow> unit result \<times> 's"
  os_MkdirTemp :: "string \<Rightarrow> 's \<Rightarrow> string result \<times> 's"
  os_CreateTemp :: "string \<Rightarrow> 's \<Rightarrow> string result \<times> 's"
  os_WriteFile :: "string \<Rightarrow> string \<Rightarrow> 's \<Rightarrow> 's"
  os_Remove :: "string \<Rightarrow> 's \<Rightarrow> 's"
  os_RemoveAll :: "string \<Rightarrow> 's \<Rightarrow> 's"

section \<open>The generator\<close>

definition placeholder_text :: string where
  "placeholder_text = ''# placeholder - clang required for eBPF compilation'' @ [CHR 0x0A]"

text \<open>The result is the exit code. Without clang the object is a placeholder and the exit code is 0.\<close>

definition generate_main :: "'s shell \<Rightarrow> 's \<Rightarrow> int \<times> 's" where
  "generate_main sh s =
     (case exec_Run sh [''which'', ''clang''] s of
        (Inl _, s) \<Rightarrow>
          (0, os_WriteFile sh ''/home/kexi/traffic-count/bin/traffic_count_bpfel.o'' placeholder_text s)
      | (Inr _, s) \<Rightarrow>
          (case exec_RunIn sh ''/home/kexi/traffic-count/internal/ebpf''
                  [''go'', ''run'', ''github.com/cilium/ebpf/cmd/bpf2go'', ''-target'', ''bpfel,bpfeb'',
                   ''-go-package'', ''ebpf'', ''traffic'', ''../../bpf/ingress.c'', ''--'', ''-I'', ''../../bpf'',
                   ''-g'', ''-O2'', ''-target'', ''bpf''] s of
             (Inl _, s) \<Rightarrow> (1, s)
           | (Inr _, s) \<Rightarrow> (0, s)))"

text \<open>The placeholder is small enough for the loader to fall back to its mock.\<close>

lemma placeholder_is_mock: "isMockMode (StatSize (int (length placeholder_text)))"
  by (simp add: isMockMode_def placeholder_text_def)

section \<open>Hardware addresses\<close>

type_synonym HardwareAddr = "byte list"

text \<open>\<open>xtoi2\<close>: two hexadecimal digits, followed by the separator or by nothing.\<close>

definition xtoi2 :: "string \<Rightarrow> char \<Rightarrow> byte option" where
  "xtoi2 s e =
     (if length s > 2 \<and> s ! 2 \<noteq> e then None
      else case s of
        a # b # _ \<Rightarrow>
          (case (hex_value a, hex_value b) of
             (Some x, Some y) \<Rightarrow> Some (of_nat (16 * x + y)) | _ \<Rightarrow> None)
      | _ \<Rightarrow> None)"

fun mac_pairs :: "nat \<Rightarrow> char \<Rightarrow> string \<Rightarrow> byte list option" where
  "mac_pairs 0 sep s = Some []"
| "mac_pairs (Suc n) sep s =
     (case xtoi2 s sep of None \<Rightarrow> None | Some b \<Rightarrow> map_option ((#) b) (mac_pairs n sep (drop 3 s)))"

fun mac_quads :: "nat \<Rightarrow> string \<Rightarrow> byte list option" where
  "mac_quads 0 s = Some []"
| "mac_quads (Suc n) s =
     (case (xtoi2 (take 2 s) CHR 0x00, xtoi2 (drop 2 s) CHR ''.'') of
        (Some a, Some b) \<Rightarrow> map_option (\<lambda>bs. a # b # bs) (mac_quads n (drop 5 s))
      | _ \<Rightarrow> None)"

definition ParseMAC :: "string \<Rightarrow> HardwareAddr result" where
  "ParseMAC s =
     (case
        (if length s < 14 then None
         else if s ! 2 = CHR '':'' \<or> s ! 2 = CHR ''-'' then
           (let n = (length s + 1) div 3
            in if (length s + 1) mod 3 \<noteq> 0 \<or> n \<notin> {6, 8, 20} then None else mac_pairs n (s ! 2) s)
         else if s ! 4 = CHR ''.'' then
           (let n = 2 * (length s + 1) div 5
            in if (length s + 1) mod 5 \<noteq> 0 \<or> n \<notin> {6, 8, 20} then None else mac_quads (n div 2) s)
         else None)
      of None \<Rightarrow> addrErr s ''invalid MAC address'' | Some hw \<Rightarrow> Ok hw)"

definition NewMACFromBytes :: "mac \<Rightarrow> HardwareAddr" where
  "NewMACFromBytes b = mac_bytes b"

section \<open>The harness\<close>

record VethPair =
  HostName :: string
  HostMAC :: HardwareAddr
  PeerName :: string
  PeerMAC :: HardwareAddr
  PeerIP :: string

record DaemonHandle =
  dh_Service :: Service
  dh_Server :: Server
  dh_Repo :: bool
  dh_Flush :: FlushLoop
  dh_tmpDir :: string

text \<open>The fields for a repository, a flush loop and a server are nil: only the daemon's are set.\<close>

record Harness =
  h_vethPairs :: "VethPair list"
  h_daemon :: "DaemonHandle option"
  h_config :: Config
  h_repo :: bool
  h_flush :: "FlushLoop option"
  h_server :: "Server option"
  h_tmpDir :: string

definition NewHarness :: "'s shell \<Rightarrow> string \<Rightarrow> 's \<Rightarrow> Harness result \<times> 's" where
  "NewHarness sh ifaceName s =
     (case os_MkdirTemp sh ''traffic-count-test-*'' s of
        (Inl e, s) \<Rightarrow> (Fail (Errorf ''creating temp dir: %w'' [AErr e]), s)
      | (Inr tmpDir, s) \<Rightarrow>
          (Ok \<lparr>h_vethPairs = [], h_daemon = None,
               h_config = New_config\<lparr>Interfaces := [ifaceName],
                 DatabasePath := tmpDir @ ''/traffic-count.db'', FlushInterval := 1, AllowPartial := True\<rparr>,
               h_repo = False, h_flush = None, h_server = None, h_tmpDir = tmpDir\<rparr>, s))"

definition CreateVethPair :: "'s shell \<Rightarrow> string \<Rightarrow> Harness \<Rightarrow> 's \<Rightarrow> VethPair result \<times> Harness \<times> 's" where
  "CreateVethPair sh pfx h s =
     (let hostName = pfx @ ''-host''; peerName = pfx @ ''-peer'';
          s = snd (exec_Run sh [''ip'', ''link'', ''add'', hostName, ''type'', ''veth'', ''peer'', ''name'', peerName] s)
      in case ParseMAC ''aa:bb:cc:dd:ee:01'' of
           Inl e \<Rightarrow> (Fail e, h, s)
         | Inr hostMac \<Rightarrow>
             (case ParseMAC ''aa:bb:cc:dd:ee:02'' of
                Inl e \<Rightarrow> (Fail e, h, s)
              | Inr peerMac \<Rightarrow>
                  (let pair = \<lparr>HostName = hostName, HostMAC = hostMac, PeerName = peerName, PeerMAC = peerMac,
                         PeerIP = ''10.0.0.2/24''\<rparr>
                   in (Ok pair, h\<lparr>h_vethPairs := h_vethPairs h @ [pair]\<rparr>, s))))"

definition SetupInterface :: "'s shell \<Rightarrow> string \<Rightarrow> 's \<Rightarrow> unit result \<times> 's" where
  "SetupInterface sh ifaceName s =
     (let s = snd (exec_Run sh [''ip'', ''link'', ''set'', ifaceName, ''up''] s);
          s = snd (exec_Run sh [''ip'', ''addr'', ''add'', ''10.0.0.1/24'', ''dev'', ifaceName] s)
      in (Ok (), s))"

text \<open>
  \<open>StartDaemon\<close>: \<open>order\<close> is the order in which a \<open>Stop\<close> of the service ranges over its map. \<open>None\<close> is a
  panic of \<open>NewServer\<close>. Waiting for the server is left out.
\<close>

definition StartDaemon ::
  "'w environment \<Rightarrow> string list \<Rightarrow> Harness \<Rightarrow> 'w \<Rightarrow> files
     \<Rightarrow> (DaemonHandle result \<times> Harness \<times> 'w \<times> files) option" where
  "StartDaemon env order h w files =
     (let cfg = h_config h; path = DatabasePath cfg in
      case Service_Start (env_tcx env) (env_lib env) (env_stat env) (NewService cfg []) w of
        (Inl e, _, w) \<Rightarrow> Some (Fail (Errorf ''starting service: %w'' [AErr e]), h, w, files)
      | (Inr _, svc, w) \<Rightarrow>
          (case New (env_open env) (files path) of
             (Inl e, db) \<Rightarrow>
               (case Service_Stop (env_tcx env) order svc w of
                  (_, _, w) \<Rightarrow> Some (Fail (Errorf ''creating repository: %w'' [AErr e]), h, w, files(path := db)))
           | (Inr _, db) \<Rightarrow>
               (let flush = NewFlushLoop True (Service_GetTrafficMap svc) (FlushInterval cfg) in
                case flush_Start (env_restore env) flush db of
                  Inl e \<Rightarrow>
                    (case Service_Stop (env_tcx env) order svc w of
                       (_, _, w) \<Rightarrow> Some (Fail (Errorf ''starting flush loop: %w'' [AErr e]), h, w, files(path := db)))
                | Inr _ \<Rightarrow>
                    (case NewServer cfg of
                       None \<Rightarrow> None
                     | Some srv \<Rightarrow>
                         (let d = \<lparr>dh_Service = svc, dh_Server = srv, dh_Repo = True, dh_Flush = flush,
                                dh_tmpDir = h_tmpDir h\<rparr>
                          in Some (Ok d, h\<lparr>h_daemon := Some d\<rparr>, w, files(path := db)))))))"



definition SendTraffic :: "'s shell \<Rightarrow> string \<Rightarrow> HardwareAddr \<Rightarrow> int \<Rightarrow> 's \<Rightarrow> unit result \<times> 's" where
  "SendTraffic sh ifaceName dstMAC cnt s =
     (let cmd = ''echo 'data' | ip neigh replace 10.0.0.2 lladdr '' @ join_hex dstMAC @ '' dev '' @ ifaceName
      in (Ok (), ((\<lambda>s. snd (exec_Run sh [''bash'', ''-c'', cmd] s)) ^^ nat cnt) s))"

text \<open>\<open>copy\<close> into a slice. A payload of negative size panics.\<close>

definition copy_into :: "byte list \<Rightarrow> byte list \<Rightarrow> byte list" where
  "copy_into dst src = take (length dst) src @ drop (length src) dst"

definition buildEthernetFrame :: "HardwareAddr \<Rightarrow> HardwareAddr \<Rightarrow> int \<Rightarrow> byte list option" where
  "buildEthernetFrame srcMAC dstMAC payloadSize =
     (if payloadSize < 0 then None
      else Some (copy_into (replicate 6 0) dstMAC @ copy_into (replicate 6 0) srcMAC @ [0x08, 0x00] @
             replicate (nat payloadSize) 0))"

text \<open>\<open>GenerateTraffic\<close> builds a frame and drops it.\<close>

definition GenerateTraffic :: "string \<Rightarrow> HardwareAddr \<Rightarrow> HardwareAddr \<Rightarrow> int \<Rightarrow> unit result option" where
  "GenerateTraffic ifaceName srcMAC dstMAC n =
     (case buildEthernetFrame srcMAC dstMAC n of None \<Rightarrow> None | Some frame \<Rightarrow> Some (Ok ()))"

definition QueryAPI :: "(string \<Rightarrow> byte list result) \<Rightarrow> Harness \<Rightarrow> string \<Rightarrow> byte list result" where
  "QueryAPI http_Get h path = http_Get (''http://'' @ BindAddress (h_config h) @ path)"

definition GetConfig :: "Harness \<Rightarrow> Config" where
  "GetConfig h = h_config h"

definition GetRepo :: "Harness \<Rightarrow> bool" where
  "GetRepo h = h_repo h"

definition GetService :: "Harness \<Rightarrow> Service option" where
  "GetService h = (case h_daemon h of None \<Rightarrow> None | Some d \<Rightarrow> Some (dh_Service d))"

section \<open>Test databases and interfaces\<close>

record TempDB =
  td_Path :: string
  td_Repo :: bool

definition NewTempDB :: "'s shell \<Rightarrow> db_io \<Rightarrow> 's \<Rightarrow> files \<Rightarrow> TempDB result \<times> 's \<times> files" where
  "NewTempDB sh io s files =
     (case os_CreateTemp sh ''traffic-count-*.db'' s of
        (Inl e, s) \<Rightarrow> (Fail e, s, files)
      | (Inr name, s) \<Rightarrow>
          (case New io (files name) of
             (Inl e, _) \<Rightarrow> (Fail e, os_Remove sh name s, files(name := empty_file))
           | (Inr _, db) \<Rightarrow> (Ok \<lparr>td_Path = name, td_Repo = True\<rparr>, s, files(name := db))))"

definition TempDB_Close :: "'s shell \<Rightarrow> TempDB \<Rightarrow> 's \<Rightarrow> files \<Rightarrow> 's \<times> files" where
  "TempDB_Close sh td s files = (os_Remove sh (td_Path td) s, files(td_Path td := empty_file))"

definition CreateTestInterface :: "'s shell \<Rightarrow> string \<Rightarrow> 's \<Rightarrow> unit result \<times> 's" where
  "CreateTestInterface sh name s =
     (case exec_Run sh [''ip'', ''link'', ''add'', name, ''type'', ''dummy''] s of
        (Inl e, s) \<Rightarrow> (Fail (Errorf ''creating dummy interface: %w'' [AErr e]), s)
      | (Inr _, s) \<Rightarrow>
          (case exec_Run sh [''ip'', ''link'', ''set'', name, ''up''] s of
             (Inl e, s) \<Rightarrow>
               (Fail (Errorf ''setting interface up: %w'' [AErr e]), snd (exec_Run sh [''ip'', ''link'', ''del'', name] s))
           | (Inr _, s) \<Rightarrow> (Ok (), s)))"

definition DeleteTestInterface :: "'s shell \<Rightarrow> string \<Rightarrow> 's \<Rightarrow> unit result \<times> 's" where
  "DeleteTestInterface sh name s = exec_Run sh [''ip'', ''link'', ''del'', name] s"

definition EnsureLoopbackUp :: "'s shell \<Rightarrow> 's \<Rightarrow> unit result \<times> 's" where
  "EnsureLoopbackUp sh s = exec_Run sh [''ip'', ''link'', ''set'', ''lo'', ''up''] s"

text \<open>\<open>strings.TrimSpace\<close>: the trailing white space is cut rune by rune after the leading one.\<close>

definition trailing_space :: "string \<Rightarrow> nat" where
  "trailing_space s =
     (let at = (\<lambda>n. length s \<ge> n \<and> space_rune (map of_char (drop (length s - n) s)) = n)
      in if at 1 then 1 else if at 2 then 2 else if at 3 then 3 else 0)"

function trim_right :: "string \<Rightarrow> string" where
  "trim_right s =
     (let n = trailing_space s in if n = 0 \<or> s = [] then s else trim_right (take (length s - n) s))"
  by pat_completeness auto
termination
  by (relation "measure length") auto

declare trim_right.simps [simp del]

definition TrimSpace :: "string \<Rightarrow> string" where
  "TrimSpace s = trim_right (trim_left s)"

definition test_iface_line :: "string \<Rightarrow> string \<Rightarrow> string option" where
  "test_iface_line pfx line =
     (if strings_Contains line (pfx @ '':'') \<or> strings_Contains line (pfx @ ''@'')
      then (let parts = strings_Split CHR '':'' line
            in if length parts \<ge> 2 then Some (hd (strings_Split CHR ''@'' (TrimSpace (parts ! 1)))) else None)
      else None)"

definition ListTestInterfaces :: "'s shell \<Rightarrow> string \<Rightarrow> 's \<Rightarrow> string list result \<times> 's" where
  "ListTestInterfaces sh pfx s =
     (case exec_Output sh [''ip'', ''-o'', ''link'', ''show''] s of
        (Inl e, s) \<Rightarrow> (Fail e, s)
      | (Inr output, s) \<Rightarrow> (Ok (List.map_filter (test_iface_line pfx) (strings_Split CHR 0x0A output)), s))"

section \<open>Addresses and frames\<close>

lemma hex_value_digit: "v < 16 \<Longrightarrow> hex_value (hex_digit v) = Some v"
  by (auto simp: hex_value_def hex_digit_def Let_def)

lemma xtoi2_hex2 [simp]: "xtoi2 (hex2 b @ r) sep = (if r \<noteq> [] \<and> hd r \<noteq> sep then None else Some b)"
proof -
  have "unat b div 16 < 16" "unat b mod 16 < 16" using unat_byte [of b] by simp_all
  moreover have "(of_nat (16 * (unat b div 16) + unat b mod 16) :: byte) = b" by simp
  ultimately show ?thesis
    by (cases r) (simp_all add: xtoi2_def hex2_def hex_value_digit del: of_nat_add of_nat_mult)
qed

text \<open>An address as the API prints it is parsed back to its bytes.\<close>

lemma ParseMAC_macToString: "ParseMAC (macToString m) = Ok (mac_bytes m)"
proof (cases m)
  case (Mac a b c d e f)
  have drop3: "drop 3 (hex2 x @ CHR '':'' # r) = r" for x r by (simp add: hex2_def)
  have third: "(hex2 x @ CHR '':'' # r) ! 2 = CHR '':''" for x r by (simp add: hex2_def)
  have one: "mac_pairs (Suc n) CHR '':'' (hex2 x @ CHR '':'' # r) = map_option ((#) x) (mac_pairs n CHR '':'' r)"
    for n x r by (simp add: drop3)
  have last: "mac_pairs (Suc 0) CHR '':'' (hex2 x) = Some [x]" for x
    using xtoi2_hex2 [of x "[]"] by (simp del: xtoi2_hex2)
  have "mac_pairs (Suc (Suc (Suc (Suc (Suc (Suc 0)))))) CHR '':'' (macToString m) = Some [a, b, c, d, e, f]"
    by (simp only: Mac macToString.simps append_Cons append_Nil append_assoc one last option.map)
  moreover have "(6 :: nat) = Suc (Suc (Suc (Suc (Suc (Suc 0)))))" by simp
  ultimately have "mac_pairs 6 CHR '':'' (macToString m) = Some [a, b, c, d, e, f]" by metis
  moreover have "macToString m ! 2 = CHR '':''" "length (macToString m) = 17"
    by (simp_all add: Mac third)
  ultimately show ?thesis by (simp add: ParseMAC_def Let_def Mac del: mac_pairs.simps)
qed

text \<open>
  A frame of the harness carries its addresses where the classifiers read them: the ingress program
  counts it for its destination, the egress program for its source.
\<close>

lemma harness_frame_addresses:
  assumes "buildEthernetFrame (mac_bytes src) (mac_bytes dst) n = Some frame"
  shows "14 \<le> length frame" and "eth_mac Ingress frame = dst" and "eth_mac Egress frame = src"
proof -
  have f: "frame = mac_bytes dst @ mac_bytes src @ [0x08, 0x00] @ replicate (nat n) 0"
    using assms by (cases src; cases dst) (auto simp: buildEthernetFrame_def copy_into_def eval_nat_numeral split: if_splits)
  have "length (mac_bytes m) = 6" for m by (cases m) simp
  with f show "14 \<le> length frame" "eth_mac Ingress frame = dst" "eth_mac Egress frame = src"
    by (simp_all add: eth_mac_def)
qed

section \<open>The life of a test daemon\<close>

lemma StartDaemon_Some:
  "StartDaemon env order h w files \<noteq> None"
  by (auto simp: StartDaemon_def Let_def NewServer_mux split: prod.splits sum.splits)








end
