(* ===== verification/Spec2Isabelle.thy ===== *)
theory Spec2Isabelle
  imports Main_Program Tooling
begin

text \<open>
  A verification of \<open>traffic-count\<close>, a daemon that counts bytes and packets per interface and MAC
  address. Two eBPF classifiers (\<open>src/bpf/ingress.c\<close>) add every frame to an entry of a kernel map. The
  flush loop (\<open>src/internal/runtime/flush.go\<close>) reads the map in intervals and adds, per entry, what is
  new since the entry's checkpoint to an all-time row and to the row of the current UTC day in a
  SQLite file (\<open>src/internal/storage/storage.go\<close>). The housekeeping loop
  (\<open>src/internal/runtime/housekeeping.go\<close>) deletes old days. The HTTP API
  (\<open>src/internal/http/http.go\<close>) reports windows of the rows and the state of the service. Around them,
  \<open>src/cmd/traffic-count/main.go\<close> loads the configuration, checks the host
  (\<open>src/internal/bootstrap/bootstrap.go\<close>), loads and attaches the classifiers (\<open>src/internal/ebpf/\<close>,
  \<open>src/internal/runtime/runtime.go\<close>) and starts and ends the loops.

  \<^bold>\<open>Conventions.\<close> A struct is a record, an enumeration a datatype, \<open>uint32\<close>, \<open>uint64\<close> and the nanoseconds
  of a \<open>Duration\<close> are words of their width, Go's \<open>int\<close> is \<open>int\<close> except where the source lets it wrap.
  A string is the list of its bytes. A fallible call returns \<open>Ok\<close> or \<open>Fail\<close>; an error keeps its format
  string and arguments unrendered. Definitions keep the source's names; methods whose names two types
  share carry the type's name first (\<open>Service_Start\<close>, \<open>Validator_Validate\<close>). What is not under
  \<open>src/\<close> and not the Go standard library is an argument: the kernel map is a handle (\<open>bpf_handle\<close>) and
  a record of helpers (\<open>bpf_helpers\<close>), TCX attachment is \<open>tcx\<close>, cilium/ebpf is \<open>ebpf_lib\<close>, the driver's
  failures are \<open>db_io\<close>, the operating system is \<open>os_env\<close> and \<open>file_stat\<close>, the clock is a time per
  reading, Go's map order is a function or list of its own. The functions of \<open>time\<close>, \<open>net\<close>, \<open>strconv\<close>,
  \<open>strings\<close>, \<open>encoding/json\<close> and \<open>net/http\<close> that the source calls are written out.
\<close>

section \<open>The theories\<close>

text \<open>
  \<^item> \<open>Prelude\<close>: integers, errors, results; the six-counter block with its componentwise arithmetic
    (instances of the library's arithmetic and order classes); keyed tables.
  \<^item> \<open>Dates\<close>: the calendar of \<open>time\<close> and the date helpers at the end of \<open>storage.go\<close>. Its lemmas show that
    \<open>YYYY-MM-DD\<close> texts order as their days do, for the years 0 to 9999.
  \<^item> \<open>Config\<close>, \<open>Config_Json\<close>: \<open>config.go\<close>. \<open>Validate\<close> with \<open>SplitHostPort\<close>, \<open>Atoi\<close> and \<open>TrimSpace\<close>; \<open>Parse\<close>,
    \<open>Load\<close> with the scanner of \<open>encoding/json\<close> as a state machine over the bytes, string unquoting, the
    match of keys with fields and the assignment over the defaults. Shown: exactly which
    configurations are accepted, that their server is bound to loopback, that a written configuration
    is read back, that keys with underscores do nothing.
  \<^item> \<open>Storage\<close>: \<open>Repository\<close> of \<open>storage.go\<close>. The file is the record \<open>database\<close> of its tables, each method a
    function of it with every statement and every failing call. The locale \<open>accumulating_table\<close>
    holds what the two upserting tables share and is interpreted for both.
  \<^item> \<open>Repository\<close>: an abstract store of counters and the simulation of its operations by the methods;
    what a listing returns; the files the program can produce (\<open>repo_file\<close>); what happens when a sum
    leaves the signed 64-bit range.
  \<^item> \<open>Traffic_Map\<close>: \<open>ebpf.go\<close>, \<open>map.go\<close> and \<open>ingress.c\<close>: reading the map with \<open>NextKey\<close> and \<open>Lookup\<close>, and the
    two classifiers. The library's handle converts keys and values to bytes and back around the calls of
    the kernel, and may refuse to; \<open>binary_encoding\<close> states the documented
    refusal of a key that does not encode to the map's key size. \<open>stable_map\<close> is a map at rest that every call reads, \<open>bpf_hash\<close> the
    kernel's hash map for the classifiers; both are interpreted.
  \<^item> \<open>Flush\<close>: \<open>flush.go\<close> without the goroutine: \<open>persistAll\<close>, the loop over the map, \<open>Start\<close>'s check of the
    checkpoints, the observers. \<open>reads\<close> relates a handle to the entries an iteration reads before it
    ends, whatever ends it. \<open>Ledger\<close> and \<open>Accounting\<close>: the files that sequences of flushes, openings
    and prunings reach, with the invariant that relates the three tables, and what a reader may
    conclude after a flush. \<open>Housekeeping\<close>: \<open>runOnce\<close>, what it deletes, and that it commutes with the
    entries of a flush.
  \<^item> \<open>Loop_Control\<close>: the goroutine, its channels and \<open>Stop\<close>, shared by both loops, as a step function over
    events, so that every interleaving is a list of events; reachable states and their invariant.
    \<open>stop_waits\<close> is a call of \<open>Stop\<close> with what happens until it returns.
  \<^item> \<open>Attachment\<close>, \<open>Loader\<close>, \<open>Bootstrap\<close>, \<open>Service\<close>: \<open>attachment.go\<close>, \<open>loader.go\<close>, \<open>bootstrap.go\<close>, \<open>runtime.go\<close>.
    The locale \<open>tcx_api\<close> says what attaching and closing do to the set of live links; \<open>accounted\<close> is the
    invariant that the manager's links are exactly the live ones. \<open>assigns_tagged_fields\<close> and
    \<open>refuses_nil_structs\<close> state what the library documents and does with the fields the loader hands it.
  \<^item> \<open>Http_Api\<close>: the handlers, filters, windows and pages of \<open>http.go\<close>; the locale \<open>reported_health\<close> relates
    the health check to the reported mode. \<open>Reporting\<close>: from frames to a report of today.
    \<open>Http_Server\<close>: the registered patterns and the way of a request to a handler.
  \<^item> \<open>Main_Program\<close>: \<open>main.go\<close> from the command line to the running loops and from the signal to the
    end, the waits of both \<open>Stop\<close> calls included. \<open>Tooling\<close>: \<open>generate.go\<close> and the test harness \<open>testutil.go\<close>, which composes the same parts.
\<close>

section \<open>How the parts meet\<close>

text \<open>
  The flush reads the map through \<open>Iterate\<close> and \<open>Next\<close> and writes with \<open>persistAll\<close>, one transaction per
  entry, so \<open>Ledger\<close> takes the entry as its step. The invariant says for every record key that the
  all-time row is the sum of the daily rows, those that were pruned included, whatever calls fail and
  however often the program restarts. \<open>Reporting\<close> follows frames through \<open>handle_packet\<close>, the map, a
  flush, the daily table and \<open>queryToday\<close>. The service's manager is handed from \<open>Service_Start\<close> to
  \<open>Service_Stop\<close> with \<open>accounted\<close>; \<open>Main_Program\<close> and \<open>Tooling\<close> use both ends. The API reads the service
  and the flush loop through \<open>ServiceHealth\<close> and \<open>FlushLoopStatus\<close>, the two interfaces of the package.

  The properties also record where the program departs from its documentation. The struct handed to
  \<open>LoadAndAssign\<close> has no tagged field, so nothing is attached, and its fields are nil pointers, which
  version 0.15 of the library refuses, so with a compiled object the program does not start; the Go key
  has 10 bytes and the map's keys 12, so no flush of the running program reads an entry; on a new day the whole cumulative
  counter is added again; after a restart on the same day the flush of an entry is refused until its
  counters pass the checkpoint; errors of the map's iterator are dropped; the keys of the documented
  configuration are not the fields' names; with the language version of \<open>go.mod\<close> the routes of the API
  match no request. Each is a theorem about the definitions that the other theorems are about.
\<close>

section \<open>Bounds and termination\<close>

text \<open>
  The loop over the kernel map may run for ever while the classifiers add entries: \<open>flush_loop\<close> is a
  \<open>partial_function (option)\<close>, \<open>None\<close> being a loop that does not end, and \<open>Accounting.Flush_returns\<close> shows
  that it ends on a map at rest, whatever the database does; \<open>reads\<close> holds exactly of iterations that
  end. All other loops are recursions with a measure; no fuel is used. The JSON scanner keeps the
  library's nesting limit of 10000. Dates are meant for clocks in the years 0 to 9999 (\<open>sane_clock\<close>);
  the text order fails beyond. \<open>IsStale\<close> and the tickers keep the 64-bit wrap of the intervals.
\<close>

section \<open>Not modelled\<close>

text \<open>
  \<^item> The \<open>updated_at\<close> columns, which no statement reads, and the files SQLite keeps beside the database; a
    sum that leaves the integer range is one abstract REAL value, whatever its digits.
  \<^item> Printing and logging, the parsing of the command-line flags, the signal itself, and the goroutine
    that runs the server: \<open>serve\<close> answers one request from one snapshot of the service, the flush loop
    and the database. The mutexes around the observers are not needed for that.
  \<^item> The JSON text of responses and the texts of JSON errors, the listening socket, and requests in
    absolute form, whose host the URL parser checks instead of the host check modelled here.
  \<^item> \<open>GODEBUG\<close> in the environment can select the other multiplexer; the model takes the default of the build.
  \<^item> A change of the kernel map during a flush is covered by a handle that may answer anything at any call.
    The first \<open>NextKey\<close> passes a nil \<open>*TrafficKey\<close>, which is not a nil interface; what the library makes of
    it is left to the handle's conversion.
  \<^item> \<open>Repository.Close\<close>, \<open>DB\<close> and the repository being nil in the handlers; the shell of the test
    harness acts on a state of its own, so deleting a test interface does not take links away.
  \<^item> The Go tests, the packaging and the documentation are no code of the program.
\<close>

end
